theory Spec2Isabelle
  imports Complex_Main "HOL-Library.Stream"
begin

section \<open>Python values: exceptions, the random generator, arrays\<close>

text \<open>
  The simulator is a Python class \<^verbatim>\<open>IsingModel\<close> (src/IsingModel.py) and a batch driver
  (src/IsingPlotter.py). Every method is modelled as a function that takes the object and
  the state of numpy's global random generator and returns the new object and generator,
  or the exception it raises.

  Python floats are read as real numbers and numpy's \<^verbatim>\<open>int64\<close> spins as integers: the
  spins are \<open>-1\<close> and \<open>1\<close>, so no sum of the program comes near the 64-bit range, and
  every energy is an integer or a half integer of small size, which a float holds exactly.

  The functions keep the names of the source. The attribute \<^verbatim>\<open>size\<close> is the field
  \<open>size_rc\<close> (\<open>size\<close> is a constant of HOL) and the constructor \<^verbatim>\<open>__init__\<close> is
  \<open>init\<close>; the functions of numpy and of \<^verbatim>\<open>math\<close> carry the prefixes \<open>np_\<close> and \<open>m_\<close>,
  and the local variables of the driver that hold the run parameters the prefix \<open>p_\<close>.
\<close>

datatype error = ValueError | IndexError | AttributeError | ZeroDivisionError

definition err_bind :: "error + 'a \<Rightarrow> ('a \<Rightarrow> error + 'b) \<Rightarrow> error + 'b" where
  "err_bind m f = (case m of Inl e \<Rightarrow> Inl e | Inr x \<Rightarrow> f x)"

text \<open>
  The generator is the stream of uniform variates it will produce. One call of
  \<^verbatim>\<open>np.random.random()\<close> or of \<^verbatim>\<open>np.random.randint(low, high)\<close> takes one variate
  \<open>u\<close>; its fractional part lies in \<open>[0, 1)\<close> whatever the stream holds.
  \<^verbatim>\<open>random()\<close> returns it, and \<^verbatim>\<open>randint(low, high)\<close> returns
  \<open>low + \<lfloor>u * (high - low)\<rfloor>\<close>, an integer of the half-open range \<open>[low, high)\<close>,
  and raises \<^verbatim>\<open>ValueError\<close> when the range is empty, as numpy does.
\<close>

type_synonym rng = "real stream"

definition np_random :: "rng \<Rightarrow> real \<times> rng" where
  "np_random g = (frac (shd g), stl g)"

definition np_randint :: "int \<Rightarrow> int \<Rightarrow> rng \<Rightarrow> error + (int \<times> rng)" where
  "np_randint low high g =
     (if low \<ge> high then Inl ValueError
      else Inr (low + \<lfloor>frac (shd g) * of_int (high - low)\<rfloor>, stl g))"

text \<open>
  A two-dimensional numpy array is the list of its rows. \<^verbatim>\<open>a[i, j]\<close> counts a negative
  index from the end and raises \<^verbatim>\<open>IndexError\<close> out of range.
\<close>

type_synonym ndarray = "int list list"

definition py_index :: "int \<Rightarrow> nat \<Rightarrow> error + nat" where
  "py_index i n =
     (let k = (if i < 0 then int n + i else i)
      in if 0 \<le> k \<and> k < int n then Inr (nat k) else Inl IndexError)"

definition item :: "ndarray \<Rightarrow> int \<times> int \<Rightarrow> error + int" where
  "item a p =
     err_bind (py_index (fst p) (length a)) (\<lambda>i.
     err_bind (py_index (snd p) (length (a ! i))) (\<lambda>j.
     Inr (a ! i ! j)))"

definition set_item :: "ndarray \<Rightarrow> int \<times> int \<Rightarrow> int \<Rightarrow> error + ndarray" where
  "set_item a p v =
     err_bind (py_index (fst p) (length a)) (\<lambda>i.
     err_bind (py_index (snd p) (length (a ! i))) (\<lambda>j.
     Inr (a[i := (a ! i)[j := v]])))"

text \<open>\<^verbatim>\<open>np.ones(size, dtype=int)\<close>; a negative dimension raises \<^verbatim>\<open>ValueError\<close>.\<close>

definition np_ones :: "int \<times> int \<Rightarrow> error + ndarray" where
  "np_ones sz =
     (if fst sz < 0 \<or> snd sz < 0 then Inl ValueError
      else Inr (replicate (nat (fst sz)) (replicate (nat (snd sz)) 1)))"

text \<open>
  \<^verbatim>\<open>np.random.choice(a, size)\<close>: every entry, in row-major order, is \<open>a[k]\<close> for a
  fresh \<open>k = randint(0, len(a))\<close>.
\<close>

primrec choice_row :: "int list \<Rightarrow> nat \<Rightarrow> rng \<Rightarrow> error + (int list \<times> rng)" where
  "choice_row a 0 g = Inr ([], g)"
| "choice_row a (Suc n) g =
     err_bind (np_randint 0 (int (length a)) g) (\<lambda>(k, g1).
     err_bind (choice_row a n g1) (\<lambda>(xs, g2).
     Inr (a ! nat k # xs, g2)))"

primrec choice_rows :: "int list \<Rightarrow> nat \<Rightarrow> nat \<Rightarrow> rng \<Rightarrow> error + (ndarray \<times> rng)" where
  "choice_rows a 0 c g = Inr ([], g)"
| "choice_rows a (Suc r) c g =
     err_bind (choice_row a c g) (\<lambda>(row, g1).
     err_bind (choice_rows a r c g1) (\<lambda>(rows, g2).
     Inr (row # rows, g2)))"

definition np_random_choice :: "int list \<Rightarrow> int \<times> int \<Rightarrow> rng \<Rightarrow> error + (ndarray \<times> rng)" where
  "np_random_choice a sz g =
     (if fst sz < 0 \<or> snd sz < 0 then Inl ValueError
      else choice_rows a (nat (fst sz)) (nat (snd sz)) g)"

text \<open>
  \<^verbatim>\<open>lattice[:, c0:] = a\<close>: the slice has the lattice's rows and its columns from \<open>c0\<close>
  on; the assignment raises \<^verbatim>\<open>ValueError\<close> unless \<open>a\<close> has that shape (neither dimension
  of the \<open>a\<close> used here is 1, so nothing is broadcast).
\<close>

definition assign_cols_from :: "ndarray \<Rightarrow> nat \<Rightarrow> ndarray \<Rightarrow> error + ndarray" where
  "assign_cols_from lat c0 a =
     (if length lat = length a \<and> list_all2 (\<lambda>row arow. length row - c0 = length arow) lat a
      then Inr (map2 (\<lambda>row arow. take c0 row @ arow) lat a)
      else Inl ValueError)"

section \<open>The lattice: class IsingModel\<close>

text \<open>
  The attributes \<^verbatim>\<open>lattice\<close> and \<^verbatim>\<open>total_E\<close> are assigned by \<^verbatim>\<open>build_lattice\<close> only
  for the initial states \<^verbatim>\<open>"r"\<close>, \<^verbatim>\<open>"u"\<close> and \<^verbatim>\<open>"k"\<close>; an attribute that was never
  assigned is \<open>None\<close>, and reading it raises \<^verbatim>\<open>AttributeError\<close>.
\<close>

record ising =
  size_rc :: "int \<times> int"
  temp :: real
  ini :: string
  dynamics :: string
  lattice :: "ndarray option"
  total_E :: "real option"

definition attr :: "'a option \<Rightarrow> error + 'a" where
  "attr v = (case v of None \<Rightarrow> Inl AttributeError | Some x \<Rightarrow> Inr x)"

text \<open>\<^verbatim>\<open>pbc\<close>: Python's \<open>%\<close> is the floor modulus, as \<open>mod\<close> on \<open>int\<close>; it raises on 0.\<close>

definition pbc :: "ising \<Rightarrow> int \<times> int \<Rightarrow> error + (int \<times> int)" where
  "pbc st indices =
     (if fst (size_rc st) = 0 \<or> snd (size_rc st) = 0 then Inl ZeroDivisionError
      else Inr (fst indices mod fst (size_rc st), snd indices mod snd (size_rc st)))"

text \<open>\<^verbatim>\<open>self.lattice[self.pbc(p)]\<close>\<close>

definition lattice_pbc :: "ising \<Rightarrow> int \<times> int \<Rightarrow> error + int" where
  "lattice_pbc st p =
     err_bind (attr (lattice st)) (\<lambda>lat.
     err_bind (pbc st p) (\<lambda>q. item lat q))"

text \<open>The sum of the four neighbours, the bracket that \<^verbatim>\<open>get_dE\<close> and \<^verbatim>\<open>unit_E\<close> share.\<close>

definition neighbours :: "ising \<Rightarrow> int \<times> int \<Rightarrow> error + int" where
  "neighbours st p =
     err_bind (lattice_pbc st (fst p - 1, snd p)) (\<lambda>a.
     err_bind (lattice_pbc st (fst p + 1, snd p)) (\<lambda>b.
     err_bind (lattice_pbc st (fst p, snd p - 1)) (\<lambda>c.
     err_bind (lattice_pbc st (fst p, snd p + 1)) (\<lambda>d.
     Inr (a + b + c + d)))))"

definition get_dE :: "ising \<Rightarrow> int \<times> int \<Rightarrow> error + int" where
  "get_dE st indices =
     err_bind (attr (lattice st)) (\<lambda>lat.
     err_bind (item lat indices) (\<lambda>s.
     err_bind (neighbours st indices) (\<lambda>n.
     Inr (2 * s * n))))"

definition unit_E :: "ising \<Rightarrow> int \<times> int \<Rightarrow> error + int" where
  "unit_E st indices =
     err_bind (attr (lattice st)) (\<lambda>lat.
     err_bind (item lat indices) (\<lambda>s.
     err_bind (neighbours st indices) (\<lambda>n.
     Inr (- s * n))))"

text \<open>\<^verbatim>\<open>get_total_E\<close>: the two nested \<^verbatim>\<open>for\<close> loops over \<^verbatim>\<open>range\<close>, then the halving.\<close>

fun total_E_cols :: "ising \<Rightarrow> int \<Rightarrow> int list \<Rightarrow> int \<Rightarrow> error + int" where
  "total_E_cols st i [] acc = Inr acc"
| "total_E_cols st i (j # js) acc =
     err_bind (unit_E st (i, j)) (\<lambda>u. total_E_cols st i js (acc + u))"

fun total_E_rows :: "ising \<Rightarrow> int list \<Rightarrow> int \<Rightarrow> error + int" where
  "total_E_rows st [] acc = Inr acc"
| "total_E_rows st (i # is) acc =
     err_bind (total_E_cols st i [0..snd (size_rc st) - 1] acc) (\<lambda>acc'.
     total_E_rows st is acc')"

definition get_total_E :: "ising \<Rightarrow> error + real" where
  "get_total_E st =
     err_bind (total_E_rows st [0..fst (size_rc st) - 1] 0) (\<lambda>t.
     Inr (real_of_int t / 2))"

definition np_sum :: "ndarray \<Rightarrow> int" where
  "np_sum a = sum_list (map sum_list a)"

definition get_abs_M :: "ising \<Rightarrow> error + int" where
  "get_abs_M st = err_bind (attr (lattice st)) (\<lambda>lat. Inr (\<bar>np_sum lat\<bar>))"

text \<open>
  \<^verbatim>\<open>build_lattice\<close>: three \<^verbatim>\<open>if\<close>s in a row (not \<^verbatim>\<open>elif\<close>), each assigning the lattice
  and then \<^verbatim>\<open>total_E\<close> from \<^verbatim>\<open>get_total_E\<close>.
\<close>

definition set_total_E :: "ising \<Rightarrow> error + ising" where
  "set_total_E st = err_bind (get_total_E st) (\<lambda>e. Inr (st\<lparr>total_E := Some e\<rparr>))"

definition build_r :: "ising \<Rightarrow> rng \<Rightarrow> error + (ising \<times> rng)" where
  "build_r st g =
     (if ini st = ''r'' then
        err_bind (np_random_choice [-1, 1] (size_rc st) g) (\<lambda>(lat, g').
        err_bind (set_total_E (st\<lparr>lattice := Some lat\<rparr>)) (\<lambda>st'.
        Inr (st', g')))
      else Inr (st, g))"

definition build_u :: "ising \<Rightarrow> error + ising" where
  "build_u st =
     (if ini st = ''u'' then
        err_bind (np_ones (size_rc st)) (\<lambda>lat.
        set_total_E (st\<lparr>lattice := Some lat\<rparr>))
      else Inr st)"

definition build_k :: "ising \<Rightarrow> error + ising" where
  "build_k st =
     (if ini st = ''k'' then
        err_bind (np_ones (size_rc st)) (\<lambda>lat.
        err_bind (np_ones (50, 25)) (\<lambda>ones.
        err_bind (assign_cols_from lat 25 (map (map uminus) ones)) (\<lambda>lat'.
        set_total_E (st\<lparr>lattice := Some lat'\<rparr>))))
      else Inr st)"

definition build_lattice :: "ising \<Rightarrow> rng \<Rightarrow> error + (ising \<times> rng)" where
  "build_lattice st g =
     err_bind (build_r st g) (\<lambda>(st1, g').
     err_bind (build_u st1) (\<lambda>st2.
     err_bind (build_k st2) (\<lambda>st3.
     Inr (st3, g'))))"

text \<open>\<^verbatim>\<open>IsingModel(size, temp, ini, dynamics)\<close>\<close>

definition init :: "int \<times> int \<Rightarrow> real \<Rightarrow> string \<Rightarrow> string \<Rightarrow> rng \<Rightarrow> error + (ising \<times> rng)" where
  "init sz t i d g =
     build_lattice \<lparr>size_rc = sz, temp = t, ini = i, dynamics = d,
                    lattice = None, total_E = None\<rparr> g"

section \<open>The dynamics\<close>

text \<open>
  \<^verbatim>\<open>metropolis\<close> returns \<^verbatim>\<open>True\<close>, \<^verbatim>\<open>False\<close>, or falls off its last \<^verbatim>\<open>elif\<close> and
  returns \<^verbatim>\<open>None\<close>. The random number is drawn in the second branch only. The
  exponential is the real one: for a positive temperature and \<open>dE \<ge> 0\<close> its argument is
  at most 0, where the float computation neither overflows nor divides by zero. At other
  temperatures it can do both, which the reals do not show, so the properties of the
  dynamics are stated for a positive temperature. \<^verbatim>\<open>math.exp\<close> rounds its result and
  returns \<open>0.0\<close> for a very negative argument (\<^verbatim>\<open>math.exp(-800.0)\<close> and
  \<^verbatim>\<open>math.exp(-1600.0)\<close> are both \<open>0.0\<close>), so it keeps the order of its arguments but not
  their difference: of the real exponential only that it is positive, at most 1 on
  arguments at most 0, and order preserving is used below, never that it is injective.
\<close>

definition metropolis :: "ising \<Rightarrow> real \<Rightarrow> rng \<Rightarrow> bool option \<times> rng" where
  "metropolis st dE g =
     (if dE < 0 then (Some True, g)
      else if dE \<ge> 0 then
        (let prob = min 1 (exp (- dE / temp st));
             (r, g') = np_random g
         in if r \<le> prob then (Some True, g')
            else if r > prob then (Some False, g')
            else (None, g'))
      else (None, g))"

text \<open>\<^verbatim>\<open>self.lattice[p] = -1 * self.lattice[p]\<close>, also written \<^verbatim>\<open>self.lattice[p] *= -1\<close>\<close>

definition negate_item :: "ising \<Rightarrow> int \<times> int \<Rightarrow> error + ising" where
  "negate_item st p =
     err_bind (attr (lattice st)) (\<lambda>lat.
     err_bind (item lat p) (\<lambda>v.
     err_bind (set_item lat p (-1 * v)) (\<lambda>lat'.
     Inr (st\<lparr>lattice := Some lat'\<rparr>))))"

text \<open>\<^verbatim>\<open>self.total_E += dE\<close>\<close>

definition add_total_E :: "ising \<Rightarrow> int \<Rightarrow> error + ising" where
  "add_total_E st dE =
     err_bind (attr (total_E st)) (\<lambda>e.
     Inr (st\<lparr>total_E := Some (e + real_of_int dE)\<rparr>))"

text \<open>\<^verbatim>\<open>(np.random.randint(0, self.size[0]), np.random.randint(0, self.size[1]))\<close>\<close>

definition random_site :: "ising \<Rightarrow> rng \<Rightarrow> error + ((int \<times> int) \<times> rng)" where
  "random_site st g =
     err_bind (np_randint 0 (fst (size_rc st)) g) (\<lambda>(i, g1).
     err_bind (np_randint 0 (snd (size_rc st)) g1) (\<lambda>(j, g2).
     Inr ((i, j), g2)))"

definition glauber :: "ising \<Rightarrow> rng \<Rightarrow> error + (ising \<times> rng)" where
  "glauber st g =
     err_bind (random_site st g) (\<lambda>(indices, g1).
     err_bind (get_dE st indices) (\<lambda>dE.
     (let (outcome, g2) = metropolis st (real_of_int dE) g1
      in if outcome = Some True then
           err_bind (negate_item st indices) (\<lambda>st1.
           err_bind (add_total_E st1 dE) (\<lambda>st2.
           Inr (st2, g2)))
         else Inr (st, g2))))"

definition kawasaki :: "ising \<Rightarrow> rng \<Rightarrow> error + (ising \<times> rng)" where
  "kawasaki st g =
     err_bind (random_site st g) (\<lambda>(indices_1, g1).
     err_bind (random_site st g1) (\<lambda>(indices_2, g2).
     err_bind (attr (lattice st)) (\<lambda>lat.
     err_bind (item lat indices_1) (\<lambda>s1.
     err_bind (item lat indices_2) (\<lambda>s2.
     if s1 \<noteq> s2 then
       err_bind (get_dE st indices_1) (\<lambda>dE_1.
       err_bind (negate_item st indices_1) (\<lambda>st1.
       err_bind (get_dE st1 indices_2) (\<lambda>dE_2.
       err_bind (negate_item st1 indices_1) (\<lambda>st2.
       (let dE = dE_1 + dE_2;
            (outcome, g3) = metropolis st2 (real_of_int dE) g2
        in if outcome = Some True then
             err_bind (negate_item st2 indices_1) (\<lambda>st3.
             err_bind (negate_item st3 indices_2) (\<lambda>st4.
             err_bind (add_total_E st4 dE) (\<lambda>st5.
             Inr (st5, g3))))
           else Inr (st2, g3))))))
     else Inr (st, g2))))))"

section \<open>Observables and the bootstrap\<close>

text \<open>
  numpy's statistics never raise: the mean or variance of an empty list, and a division
  by a zero denominator, give \<^verbatim>\<open>nan\<close> or \<^verbatim>\<open>inf\<close> (with a warning), and every later
  operation on such a value gives one again. \<open>NotFinite\<close> stands for both.
\<close>

datatype npfloat = Finite real | NotFinite

definition np_mean :: "real list \<Rightarrow> npfloat" where
  "np_mean xs = (if xs = [] then NotFinite else Finite (sum_list xs / real (length xs)))"

definition np_var :: "real list \<Rightarrow> npfloat" where
  "np_var xs =
     (case np_mean xs of
        NotFinite \<Rightarrow> NotFinite
      | Finite mu \<Rightarrow> np_mean (map (\<lambda>x. (x - mu)\<^sup>2) xs))"

fun finite_values :: "npfloat list \<Rightarrow> real list option" where
  "finite_values [] = Some []"
| "finite_values (NotFinite # xs) = None"
| "finite_values (Finite x # xs) = map_option ((#) x) (finite_values xs)"

definition np_var_f :: "npfloat list \<Rightarrow> npfloat" where
  "np_var_f xs = (case finite_values xs of None \<Rightarrow> NotFinite | Some ys \<Rightarrow> np_var ys)"

definition np_divide :: "npfloat \<Rightarrow> real \<Rightarrow> npfloat" where
  "np_divide x d =
     (case x of NotFinite \<Rightarrow> NotFinite
      | Finite a \<Rightarrow> if d = 0 then NotFinite else Finite (a / d))"

text \<open>\<^verbatim>\<open>math.sqrt\<close> raises \<^verbatim>\<open>ValueError\<close> on a negative number.\<close>

definition m_sqrt :: "npfloat \<Rightarrow> error + npfloat" where
  "m_sqrt x =
     (case x of NotFinite \<Rightarrow> Inr NotFinite
      | Finite a \<Rightarrow> if a < 0 then Inl ValueError else Inr (Finite (sqrt a)))"

definition get_avg_obs :: "ising \<Rightarrow> real list \<Rightarrow> npfloat" where
  "get_avg_obs st observables = np_mean observables"

definition get_heat_capacity :: "ising \<Rightarrow> real list \<Rightarrow> npfloat" where
  "get_heat_capacity st energies =
     np_divide (np_var energies)
       (real_of_int (fst (size_rc st) * snd (size_rc st)) * (temp st)\<^sup>2)"

definition get_chi :: "ising \<Rightarrow> real list \<Rightarrow> npfloat" where
  "get_chi st mags =
     np_divide (np_var mags)
       (real_of_int (fst (size_rc st) * snd (size_rc st)) * temp st)"

text \<open>\<^verbatim>\<open>xs[r]\<close> on a Python list.\<close>

definition py_get :: "'a list \<Rightarrow> int \<Rightarrow> error + 'a" where
  "py_get xs r = err_bind (py_index r (length xs)) (\<lambda>k. Inr (xs ! k))"

text \<open>
  The inner loop of \<^verbatim>\<open>bootstrap\<close> and \<^verbatim>\<open>bootstrap_chi\<close>, the same in both:
  \<^verbatim>\<open>for j in range(len(energies)): r = np.random.randint(0, (len(energies)-1));
  sampling_data.append(energies[r])\<close>. The second argument counts the iterations left.
\<close>

definition draw_index :: "'a list \<Rightarrow> rng \<Rightarrow> error + (int \<times> rng)" where
  "draw_index energies g = np_randint 0 (int (length energies) - 1) g"

primrec resample :: "real list \<Rightarrow> nat \<Rightarrow> rng \<Rightarrow> error + (real list \<times> rng)" where
  "resample energies 0 g = Inr ([], g)"
| "resample energies (Suc k) g =
     err_bind (draw_index energies g) (\<lambda>(r, g1).
     err_bind (py_get energies r) (\<lambda>x.
     err_bind (resample energies k g1) (\<lambda>(sampling_data, g2).
     Inr (x # sampling_data, g2))))"

text \<open>The outer loop, \<^verbatim>\<open>for i in range(samples)\<close>, with the derived quantity as a parameter.\<close>

primrec bootstrap_loop ::
  "(real list \<Rightarrow> npfloat) \<Rightarrow> real list \<Rightarrow> nat \<Rightarrow> rng \<Rightarrow> error + (npfloat list \<times> rng)" where
  "bootstrap_loop derive energies 0 g = Inr ([], g)"
| "bootstrap_loop derive energies (Suc i) g =
     err_bind (resample energies (length energies) g) (\<lambda>(sampling_data, g1).
     err_bind (bootstrap_loop derive energies i g1) (\<lambda>(error_data, g2).
     Inr (derive sampling_data # error_data, g2)))"

definition bootstrap :: "ising \<Rightarrow> real list \<Rightarrow> int \<Rightarrow> rng \<Rightarrow> error + (npfloat \<times> rng)" where
  "bootstrap st energies samples g =
     err_bind (bootstrap_loop (get_heat_capacity st) energies (nat samples) g) (\<lambda>(error_data, g').
     err_bind (m_sqrt (np_var_f error_data)) (\<lambda>e.
     Inr (e, g')))"

definition bootstrap_chi :: "ising \<Rightarrow> real list \<Rightarrow> int \<Rightarrow> rng \<Rightarrow> error + (npfloat \<times> rng)" where
  "bootstrap_chi st mags samples g =
     err_bind (bootstrap_loop (get_chi st) mags (nat samples) g) (\<lambda>(error_data, g').
     err_bind (m_sqrt (np_var_f error_data)) (\<lambda>e.
     Inr (e, g')))"

section \<open>The batch driver: IsingPlotter.main\<close>

text \<open>
  The driver is modelled from the parsed parameter line on; reading the command line and
  the parameter file is not. The two output files are the lists of the records written
  to them, a record being the list of its numbers.
\<close>

record params =
  p_min_temp :: real
  p_max_temp :: real
  p_temp_step :: real
  p_sweeps :: int
  p_eqm_sweeps :: int
  p_n :: int
  p_samples :: int
  p_dynamics :: string
  p_lattice_size :: "int \<times> int"

text \<open>\<^verbatim>\<open>np.arange(start, stop, step)\<close>: \<open>\<lceil>(stop - start) / step\<rceil>\<close> values from \<open>start\<close> on.\<close>

definition np_arange :: "real \<Rightarrow> real \<Rightarrow> real \<Rightarrow> error + real list" where
  "np_arange start stop step =
     (if step = 0 then Inl ZeroDivisionError
      else Inr (map (\<lambda>k. start + real k * step) [0..<nat \<lceil>(stop - start) / step\<rceil>]))"

text \<open>\<^verbatim>\<open>(j+1) >= eqm_sweeps and (j+1) % n == 0\<close>; \<^verbatim>\<open>and\<close> evaluates the modulus only when
  the comparison holds.\<close>

definition sampling_due :: "params \<Rightarrow> int \<Rightarrow> error + bool" where
  "sampling_due ps j =
     (if j + 1 \<ge> p_eqm_sweeps ps then
        (if p_n ps = 0 then Inl ZeroDivisionError else Inr ((j + 1) mod p_n ps = 0))
      else Inr False)"

text \<open>What the sweep loops carry: the lattice, the generator, and the two sample lists.\<close>

record run =
  model :: ising
  gen :: rng
  energy_per_temp :: "real list"
  mag_per_temp :: "real list"

text \<open>The body of the inner loop of the Glauber branch (the loop over \<^verbatim>\<open>k\<close>), in sweep \<open>j\<close>.\<close>

definition glauber_body :: "params \<Rightarrow> int \<Rightarrow> run \<Rightarrow> error + run" where
  "glauber_body ps j s =
     err_bind (glauber (model s) (gen s)) (\<lambda>(st, g).
     err_bind (sampling_due ps j) (\<lambda>due.
     if due then
       err_bind (attr (total_E st)) (\<lambda>e.
       err_bind (get_abs_M st) (\<lambda>m.
       Inr (s\<lparr>model := st, gen := g,
               energy_per_temp := energy_per_temp s @ [e],
               mag_per_temp := mag_per_temp s @ [real_of_int m]\<rparr>)))
     else Inr (s\<lparr>model := st, gen := g\<rparr>)))"

text \<open>The body of the inner loop of the Kawasaki branch (the loop over \<^verbatim>\<open>m\<close>), in sweep \<open>l\<close>.\<close>

definition kawasaki_body :: "params \<Rightarrow> int \<Rightarrow> run \<Rightarrow> error + run" where
  "kawasaki_body ps l s =
     err_bind (kawasaki (model s) (gen s)) (\<lambda>(st, g).
     err_bind (sampling_due ps l) (\<lambda>due.
     if due then
       err_bind (attr (total_E st)) (\<lambda>e.
       Inr (s\<lparr>model := st, gen := g, energy_per_temp := energy_per_temp s @ [e]\<rparr>))
     else Inr (s\<lparr>model := st, gen := g\<rparr>)))"

text \<open>\<^verbatim>\<open>for k in range(count): body\<close>\<close>

primrec repeat :: "nat \<Rightarrow> ('s \<Rightarrow> error + 's) \<Rightarrow> 's \<Rightarrow> error + 's" where
  "repeat 0 body s = Inr s"
| "repeat (Suc k) body s = err_bind (body s) (\<lambda>s'. repeat k body s')"

text \<open>\<^verbatim>\<open>for j in range(sweeps): for k in range(rows * cols): body\<close>, over the sweeps left.\<close>

fun sweep_loop :: "(int \<Rightarrow> run \<Rightarrow> error + run) \<Rightarrow> int \<times> int \<Rightarrow> int list \<Rightarrow> run \<Rightarrow> error + run" where
  "sweep_loop body sz [] s = Inr s"
| "sweep_loop body sz (j # js) s =
     err_bind (repeat (nat (fst sz * snd sz)) (body j) s) (\<lambda>s'.
     sweep_loop body sz js s')"

text \<open>The Glauber branch for one temperature: the sweeps, the averages, the record.\<close>

definition glauber_point :: "params \<Rightarrow> real \<Rightarrow> ising \<Rightarrow> rng \<Rightarrow> error + (npfloat list \<times> rng)" where
  "glauber_point ps t st g =
     err_bind (sweep_loop (glauber_body ps) (p_lattice_size ps) [0..p_sweeps ps - 1]
                 \<lparr>model = st, gen = g, energy_per_temp = [], mag_per_temp = []\<rparr>) (\<lambda>s.
     err_bind (bootstrap (model s) (energy_per_temp s) (p_samples ps) (gen s)) (\<lambda>(heat_cap_error, g1).
     err_bind (bootstrap_chi (model s) (mag_per_temp s) (p_samples ps) g1) (\<lambda>(chi_error, g2).
     Inr ([Finite t,
           get_avg_obs (model s) (energy_per_temp s),
           get_avg_obs (model s) (mag_per_temp s),
           get_heat_capacity (model s) (energy_per_temp s),
           heat_cap_error,
           get_chi (model s) (mag_per_temp s),
           chi_error], g2))))"

definition kawasaki_point :: "params \<Rightarrow> real \<Rightarrow> ising \<Rightarrow> rng \<Rightarrow> error + (npfloat list \<times> rng)" where
  "kawasaki_point ps t st g =
     err_bind (sweep_loop (kawasaki_body ps) (p_lattice_size ps) [0..p_sweeps ps - 1]
                 \<lparr>model = st, gen = g, energy_per_temp = [], mag_per_temp = []\<rparr>) (\<lambda>s.
     err_bind (bootstrap (model s) (energy_per_temp s) (p_samples ps) (gen s)) (\<lambda>(heat_cap_error, g1).
     Inr ([Finite t,
           get_avg_obs (model s) (energy_per_temp s),
           get_heat_capacity (model s) (energy_per_temp s),
           heat_cap_error], g1)))"

text \<open>
  The loop over the temperatures. Its state is the two output files and the generator;
  a lattice is built for every temperature, whatever the dynamics, and the
  \<^verbatim>\<open>if\<close>/\<^verbatim>\<open>elif\<close> on the dynamics has no \<^verbatim>\<open>else\<close>.
\<close>

record outfiles =
  glauber_output :: "npfloat list list"
  kawasaki_output :: "npfloat list list"

fun temp_loop :: "params \<Rightarrow> real list \<Rightarrow> outfiles \<Rightarrow> rng \<Rightarrow> error + (outfiles \<times> rng)" where
  "temp_loop ps [] out g = Inr (out, g)"
| "temp_loop ps (t # ts) out g =
     err_bind (init (p_lattice_size ps) t ''u'' (p_dynamics ps) g) (\<lambda>(st, g1).
     if dynamics st = ''glauber'' then
       err_bind (glauber_point ps t st g1) (\<lambda>(line, g2).
       temp_loop ps ts (out\<lparr>glauber_output := glauber_output out @ [line]\<rparr>) g2)
     else if dynamics st = ''kawasaki'' then
       err_bind (kawasaki_point ps t st g1) (\<lambda>(line, g2).
       temp_loop ps ts (out\<lparr>kawasaki_output := kawasaki_output out @ [line]\<rparr>) g2)
     else temp_loop ps ts out g1)"

definition main :: "params \<Rightarrow> rng \<Rightarrow> error + (outfiles \<times> rng)" where
  "main ps g =
     err_bind (np_arange (p_min_temp ps) (p_max_temp ps + p_temp_step ps) (p_temp_step ps))
       (\<lambda>temp_range.
     temp_loop ps temp_range \<lparr>glauber_output = [], kawasaki_output = []\<rparr> g)"

section \<open>Notions the properties are stated with\<close>

text \<open>
  A lattice object is \<open>proper\<close> when \<^verbatim>\<open>build_lattice\<close> has assigned its lattice and
  energy, the array has the shape \<^verbatim>\<open>size\<close> with at least one row and one column, and
  the temperature is positive.
\<close>

definition has_shape :: "int \<Rightarrow> int \<Rightarrow> ndarray \<Rightarrow> bool" where
  "has_shape R C lat = (int (length lat) = R \<and> list_all (\<lambda>row. int (length row) = C) lat)"

definition proper :: "ising \<Rightarrow> bool" where
  "proper st =
     (case lattice st of
        None \<Rightarrow> False
      | Some lat \<Rightarrow>
          has_shape (fst (size_rc st)) (snd (size_rc st)) lat \<and>
          0 < fst (size_rc st) \<and> 0 < snd (size_rc st) \<and>
          total_E st \<noteq> None \<and> 0 < temp st)"

text \<open>Every spin is \<open>-1\<close> or \<open>1\<close>.\<close>

definition spins_pm :: "ising \<Rightarrow> bool" where
  "spins_pm st =
     (case lattice st of
        None \<Rightarrow> False
      | Some lat \<Rightarrow> list_all (list_all (\<lambda>s. s = - 1 \<or> s = 1)) lat)"

text \<open>The maintained \<^verbatim>\<open>total_E\<close> is what \<^verbatim>\<open>get_total_E()\<close> returns on the present grid.\<close>

definition energy_consistent :: "ising \<Rightarrow> bool" where
  "energy_consistent st =
     (case total_E st of None \<Rightarrow> False | Some e \<Rightarrow> get_total_E st = Inr e)"

text \<open>The sum of all spins, \<^verbatim>\<open>np.sum(self.lattice)\<close>.\<close>

definition total_spin :: "ising \<Rightarrow> int option" where
  "total_spin st = map_option np_sum (lattice st)"

text \<open>A finite sequence of calls of \<^verbatim>\<open>glauber()\<close> and \<^verbatim>\<open>kawasaki()\<close> on one object.\<close>

datatype move = Glauber | Kawasaki

definition step :: "move \<Rightarrow> ising \<times> rng \<Rightarrow> error + (ising \<times> rng)" where
  "step m s =
     (case m of Glauber \<Rightarrow> glauber (fst s) (snd s) | Kawasaki \<Rightarrow> kawasaki (fst s) (snd s))"

fun steps :: "move list \<Rightarrow> ising \<times> rng \<Rightarrow> error + (ising \<times> rng)" where
  "steps [] s = Inr s"
| "steps (m # ms) s = err_bind (step m s) (steps ms)"



text \<open>
  The grid as a function of the row and the column, the sum of the four neighbours of a
  site on the torus, and twice the energy of \<^verbatim>\<open>get_total_E\<close> as a sum over the sites.
  \<open>ring\<close> is the part of that sum along one row or one column.
\<close>

definition spin :: "ndarray \<Rightarrow> int \<Rightarrow> int \<Rightarrow> int" where
  "spin lat i j = lat ! nat i ! nat j"

definition nsum :: "int \<Rightarrow> int \<Rightarrow> (int \<Rightarrow> int \<Rightarrow> int) \<Rightarrow> int \<Rightarrow> int \<Rightarrow> int" where
  "nsum R C f i j = f ((i - 1) mod R) j + f ((i + 1) mod R) j
                  + f i ((j - 1) mod C) + f i ((j + 1) mod C)"

definition energy2 :: "int \<Rightarrow> int \<Rightarrow> (int \<Rightarrow> int \<Rightarrow> int) \<Rightarrow> int" where
  "energy2 R C f = (\<Sum>i = 0..<R. \<Sum>j = 0..<C. - f i j * nsum R C f i j)"

definition ring :: "int \<Rightarrow> (int \<Rightarrow> int) \<Rightarrow> int" where
  "ring n g = (\<Sum>i = 0..<n. g i * (g ((i - 1) mod n) + g ((i + 1) mod n)))"

definition flip_at :: "ndarray \<Rightarrow> int \<times> int \<Rightarrow> ndarray" where
  "flip_at lat p =
     lat[nat (fst p) := (lat ! nat (fst p))[nat (snd p) := - spin lat (fst p) (snd p)]]"

text \<open>The object \<open>st\<close> holds the \<open>R\<close> by \<open>C\<close> grid \<open>lat\<close>, with at least one site.\<close>

definition on_grid :: "ising \<Rightarrow> int \<Rightarrow> int \<Rightarrow> ndarray \<Rightarrow> bool" where
  "on_grid st R C lat =
     (size_rc st = (R, C) \<and> lattice st = Some lat \<and> has_shape R C lat \<and> 0 < R \<and> 0 < C)"

text \<open>
  The 2 by 2 lattice of up spins at temperature 1, as the constructor builds it: the
  object the properties below are tried on.
\<close>

definition up2 :: ising where
  "up2 = \<lparr>size_rc = (2, 2), temp = 1, ini = ''u'', dynamics = ''glauber'',
          lattice = Some [[1, 1], [1, 1]], total_E = Some (- 8)\<rparr>"

text \<open>
  A 2 by 2 lattice with one down spin, and a generator whose first four variates pick
  the sites \<open>(0, 0)\<close> and \<open>(0, 1)\<close>, an up spin and the down spin.
\<close>

definition mixed2 :: ising where
  "mixed2 = \<lparr>size_rc = (2, 2), temp = 1, ini = ''r'', dynamics = ''kawasaki'',
          lattice = Some [[1, - 1], [1, 1]], total_E = Some 0\<rparr>"

definition pick_00_01 :: rng where
  "pick_00_01 = 0 ## 0 ## 0 ## (1 / 2) ## sconst 0"

text \<open>
  A 1 by 1 lattice at temperature 8, as the constructor builds it: its one site is its
  own neighbour in all four directions.
\<close>

definition warm1 :: ising where
  "warm1 = \<lparr>size_rc = (1, 1), temp = 8, ini = ''u'', dynamics = ''glauber'',
          lattice = Some [[1]], total_E = Some (- 2)\<rparr>"

text \<open>Run parameters with a dynamics name that is neither of the two the driver knows.\<close>

definition other_params :: params where
  "other_params = \<lparr>p_min_temp = 1, p_max_temp = 3, p_temp_step = 1, p_sweeps = 10,
     p_eqm_sweeps = 1, p_n = 1, p_samples = 1, p_dynamics = ''metropolis'',
     p_lattice_size = (2, 2)\<rparr>"

text \<open>Run parameters for one sweep of a 2 by 2 lattice, sampled from the first sweep on.\<close>

definition one_sweep :: params where
  "one_sweep = \<lparr>p_min_temp = 1, p_max_temp = 1, p_temp_step = 1, p_sweeps = 1,
     p_eqm_sweeps = 1, p_n = 1, p_samples = 1, p_dynamics = ''glauber'',
     p_lattice_size = (2, 2)\<rparr>"

section \<open>Basic facts\<close>

lemma err_bind_Inr [simp]: "err_bind (Inr x) f = f x"
  by (simp add: err_bind_def)

lemma err_bind_Inl [simp]: "err_bind (Inl e) f = Inl e"
  by (simp add: err_bind_def)

section \<open>Sums around a ring and the energy of a flip\<close>

lemma sum_two_changes:
  fixes h h' :: "int \<Rightarrow> int"
  assumes "finite A" "x \<in> A" "y \<in> A" "x \<noteq> y"
    and "\<And>i. i \<in> A \<Longrightarrow> i \<noteq> x \<Longrightarrow> i \<noteq> y \<Longrightarrow> h' i = h i"
  shows "sum h' A = sum h A + (h' x - h x) + (h' y - h y)"
proof -
  have y: "y \<in> A - {x}" and fin: "finite (A - {x})" using assms by simp_all
  have 1: "sum h' A = h' x + (h' y + sum h' (A - {x} - {y}))"
    using sum.remove[OF assms(1,2), of h'] sum.remove[OF fin y, of h'] by simp
  have 2: "sum h A = h x + (h y + sum h (A - {x} - {y}))"
    using sum.remove[OF assms(1,2), of h] sum.remove[OF fin y, of h] by simp
  have 3: "sum h' (A - {x} - {y}) = sum h (A - {x} - {y})"
    by (rule sum.cong) (simp_all add: assms(5))
  show ?thesis unfolding 1 2 3 by simp
qed

lemma succ_pred_mod:
  fixes n i :: int
  assumes "0 \<le> i" "i < n"
  shows "((i + 1) mod n - 1) mod n = i" "((i - 1) mod n + 1) mod n = i"
  using assms by (simp_all add: mod_diff_left_eq mod_add_left_eq)

lemma succ_mod_neq:
  fixes n a :: int
  assumes "2 \<le> n" "0 \<le> a" "a < n"
  shows "(a + 1) mod n \<noteq> a" "(a - 1) mod n \<noteq> a"
proof -
  show "(a + 1) mod n \<noteq> a"
  proof
    assume "(a + 1) mod n = a"
    then have "(a + 1) mod n = a mod n" using assms by simp
    then have "n dvd (a + 1 - a)" by (simp add: mod_eq_dvd_iff)
    then show False using assms by (simp add: zdvd_not_zless)
  qed
  show "(a - 1) mod n \<noteq> a"
  proof
    assume "(a - 1) mod n = a"
    then have "(a - 1) mod n = a mod n" using assms by simp
    then have "n dvd (a - 1 - a)" by (simp add: mod_eq_dvd_iff)
    then show False using assms by (simp add: zdvd_not_zless)
  qed
qed

lemma ring_reindex:
  fixes n :: int
  assumes "0 < n"
  shows "(\<Sum>i = 0..<n. h i ((i - 1) mod n)) = (\<Sum>i = 0..<n. h ((i + 1) mod n) i)"
  by (rule sum.reindex_bij_witness[of _ "\<lambda>i. (i + 1) mod n" "\<lambda>i. (i - 1) mod n"])
     (use assms in \<open>auto simp: succ_pred_mod\<close>)

lemma ring_double:
  assumes "0 < n"
  shows "ring n g = 2 * (\<Sum>i = 0..<n. g i * g ((i + 1) mod n))"
proof -
  have "ring n g = (\<Sum>i = 0..<n. g i * g ((i - 1) mod n)) + (\<Sum>i = 0..<n. g i * g ((i + 1) mod n))"
    by (simp add: ring_def distrib_left sum.distrib)
  also have "(\<Sum>i = 0..<n. g i * g ((i - 1) mod n)) = (\<Sum>i = 0..<n. g ((i + 1) mod n) * g i)"
    using ring_reindex[OF assms, of "\<lambda>i j. g i * g j"] .
  finally show ?thesis by (simp add: mult.commute)
qed

lemma ring_flip:
  assumes n: "2 \<le> n" and a: "0 \<le> a" "a < n"
    and g': "\<And>i. 0 \<le> i \<Longrightarrow> i < n \<Longrightarrow> g' i = (if i = a then - g a else g i)"
  shows "ring n g' = ring n g - 4 * g a * (g ((a - 1) mod n) + g ((a + 1) mod n))"
proof -
  let ?p = "(a - 1) mod n" and ?s = "(a + 1) mod n"
  let ?h = "\<lambda>i. g i * g ((i + 1) mod n)" and ?h' = "\<lambda>i. g' i * g' ((i + 1) mod n)"
  have n0: "0 < n" using n by simp
  have p: "0 \<le> ?p" "?p < n" "?p \<noteq> a" "(?p + 1) mod n = a"
    using n a succ_mod_neq[of n a] succ_pred_mod[of a n] by simp_all
  have s: "0 \<le> ?s" "?s < n" "?s \<noteq> a"
    using n a succ_mod_neq[of n a] by simp_all
  have other: "?h' i = ?h i" if "i \<in> {0..<n}" "i \<noteq> a" "i \<noteq> ?p" for i
  proof -
    have i: "0 \<le> i" "i < n" using that by simp_all
    have "(i + 1) mod n \<noteq> a"
    proof
      assume "(i + 1) mod n = a"
      then have "((i + 1) mod n - 1) mod n = ?p" by simp
      then show False using succ_pred_mod(1)[OF i] that by simp
    qed
    moreover have "0 \<le> (i + 1) mod n" "(i + 1) mod n < n" using n0 by simp_all
    ultimately show ?thesis using g' i that by simp
  qed
  have split: "sum ?h' {0..<n} = sum ?h {0..<n} + (?h' a - ?h a) + (?h' ?p - ?h ?p)"
    by (rule sum_two_changes) (use a p other in auto)
  have e1: "?h' a - ?h a = - 2 * (g a * g ?s)"
    using g'[of a] g'[of ?s] a s by simp
  have e2: "?h' ?p - ?h ?p = - 2 * (g a * g ?p)"
    using g'[of a] g'[of ?p] a p by simp
  have "sum ?h' {0..<n} = sum ?h {0..<n} - 2 * (g a * (g ?p + g ?s))"
    unfolding split e1 e2 by (simp add: distrib_left)
  then have "2 * sum ?h' {0..<n} = 2 * sum ?h {0..<n} - 4 * g a * (g ?p + g ?s)"
    by simp
  then show ?thesis
    unfolding ring_double[OF n0] .
qed


lemma ring_cong:
  assumes "0 < n" and "\<And>i. 0 \<le> i \<Longrightarrow> i < n \<Longrightarrow> g' i = g i"
  shows "ring n g' = ring n g"
  unfolding ring_def
  by (rule sum.cong) (simp_all add: assms)

lemma sum_one_change:
  fixes h h' :: "int \<Rightarrow> int"
  assumes "finite A" "x \<in> A" and "\<And>i. i \<in> A \<Longrightarrow> i \<noteq> x \<Longrightarrow> h' i = h i"
  shows "sum h' A = sum h A + (h' x - h x)"
proof -
  have "sum h' (A - {x}) = sum h (A - {x})"
    by (rule sum.cong) (simp_all add: assms(3))
  then show ?thesis
    using sum.remove[OF assms(1,2), of h'] sum.remove[OF assms(1,2), of h] by simp
qed

lemma energy2_ring:
  "energy2 R C f = - ((\<Sum>j = 0..<C. ring R (\<lambda>i. f i j)) + (\<Sum>i = 0..<R. ring C (\<lambda>j. f i j)))"
proof -
  have "energy2 R C f =
      - ((\<Sum>i = 0..<R. \<Sum>j = 0..<C. f i j * (f ((i - 1) mod R) j + f ((i + 1) mod R) j))
       + (\<Sum>i = 0..<R. \<Sum>j = 0..<C. f i j * (f i ((j - 1) mod C) + f i ((j + 1) mod C))))"
    by (simp add: energy2_def nsum_def sum_negf sum_subtractf sum.distrib algebra_simps)
  also have "(\<Sum>i = 0..<R. \<Sum>j = 0..<C. f i j * (f ((i - 1) mod R) j + f ((i + 1) mod R) j))
      = (\<Sum>j = 0..<C. ring R (\<lambda>i. f i j))"
    unfolding ring_def by (rule sum.swap)
  finally show ?thesis by (simp add: ring_def)
qed

lemma energy2_flip:
  assumes R: "2 \<le> R" and C: "2 \<le> C" and a: "0 \<le> a" "a < R" and b: "0 \<le> b" "b < C"
    and f': "\<And>i j. 0 \<le> i \<Longrightarrow> i < R \<Longrightarrow> 0 \<le> j \<Longrightarrow> j < C \<Longrightarrow>
               f' i j = (if i = a \<and> j = b then - f a b else f i j)"
  shows "energy2 R C f' = energy2 R C f + 4 * f a b * nsum R C f a b"
proof -
  have cols: "(\<Sum>j = 0..<C. ring R (\<lambda>i. f' i j)) =
      (\<Sum>j = 0..<C. ring R (\<lambda>i. f i j)) + (ring R (\<lambda>i. f' i b) - ring R (\<lambda>i. f i b))"
  proof (rule sum_one_change)
    fix j assume "j \<in> {0..<C}" "j \<noteq> b"
    then show "ring R (\<lambda>i. f' i j) = ring R (\<lambda>i. f i j)"
      using R by (intro ring_cong) (simp_all add: f')
  qed (use b in simp_all)
  have rows: "(\<Sum>i = 0..<R. ring C (\<lambda>j. f' i j)) =
      (\<Sum>i = 0..<R. ring C (\<lambda>j. f i j)) + (ring C (\<lambda>j. f' a j) - ring C (\<lambda>j. f a j))"
  proof (rule sum_one_change)
    fix i assume "i \<in> {0..<R}" "i \<noteq> a"
    then show "ring C (\<lambda>j. f' i j) = ring C (\<lambda>j. f i j)"
      using C by (intro ring_cong) (simp_all add: f')
  qed (use a in simp_all)
  have colb: "ring R (\<lambda>i. f' i b) =
      ring R (\<lambda>i. f i b) - 4 * f a b * (f ((a - 1) mod R) b + f ((a + 1) mod R) b)"
    by (rule ring_flip[OF R a]) (simp add: f' b)
  have rowa: "ring C (\<lambda>j. f' a j) =
      ring C (\<lambda>j. f a j) - 4 * f a b * (f a ((b - 1) mod C) + f a ((b + 1) mod C))"
    by (rule ring_flip[OF C b]) (simp add: f' a)
  show ?thesis
    unfolding energy2_ring cols rows colb rowa nsum_def
    by (simp add: algebra_simps)
qed

section \<open>Reading and writing the grid\<close>

lemma np_randint_range:
  assumes "low < high"
  shows "\<exists>k. np_randint low high g = Inr (k, stl g) \<and> low \<le> k \<and> k < high"
proof -
  let ?u = "frac (shd g)" and ?w = "real_of_int (high - low)"
  have w: "0 < ?w" using assms by simp
  have u: "0 \<le> ?u" "?u < 1" by (simp_all add: frac_lt_1)
  have "0 \<le> ?u * ?w" using u w by simp
  then have lo: "0 \<le> \<lfloor>?u * ?w\<rfloor>" by simp
  have "?u * ?w < ?w" using u w by simp
  then have hi: "\<lfloor>?u * ?w\<rfloor> < high - low" by (simp add: floor_less_iff)
  have "np_randint low high g = Inr (low + \<lfloor>?u * ?w\<rfloor>, stl g)"
    using assms by (simp add: np_randint_def)
  then show ?thesis using lo hi by simp
qed

lemma random_site_range:
  assumes "size_rc st = (R, C)" "0 < R" "0 < C"
  shows "\<exists>i j. random_site st g = Inr ((i, j), stl (stl g)) \<and> 0 \<le> i \<and> i < R \<and> 0 \<le> j \<and> j < C"
proof -
  obtain i where i: "np_randint 0 R g = Inr (i, stl g)" "0 \<le> i" "i < R"
    using np_randint_range[OF assms(2)] by blast
  obtain j where j: "np_randint 0 C (stl g) = Inr (j, stl (stl g))" "0 \<le> j" "j < C"
    using np_randint_range[OF assms(3)] by blast
  show ?thesis using i j assms(1) by (simp add: random_site_def)
qed

lemma has_shape_len:
  assumes "has_shape R C lat" "0 \<le> i" "i < R"
  shows "nat i < length lat"
  using assms by (auto simp: has_shape_def)

lemma has_shape_row:
  assumes "has_shape R C lat" "0 \<le> i" "i < R"
  shows "int (length (lat ! nat i)) = C"
  using assms(1) has_shape_len[OF assms] by (simp add: has_shape_def list_all_length)

lemma py_index_range: "0 \<le> i \<Longrightarrow> i < int n \<Longrightarrow> py_index i n = Inr (nat i)"
  by (simp add: py_index_def)

lemma item_spin:
  assumes "has_shape R C lat" "0 \<le> i" "i < R" "0 \<le> j" "j < C"
  shows "item lat (i, j) = Inr (spin lat i j)"
proof -
  have "i < int (length lat)" using assms by (simp add: has_shape_def)
  moreover have "j < int (length (lat ! nat i))" using has_shape_row[OF assms(1-3)] assms by simp
  ultimately show ?thesis using assms by (simp add: item_def py_index_range spin_def)
qed

lemma set_item_range:
  assumes "has_shape R C lat" "0 \<le> i" "i < R" "0 \<le> j" "j < C"
  shows "set_item lat (i, j) v = Inr (lat[nat i := (lat ! nat i)[nat j := v]])"
proof -
  have "i < int (length lat)" using assms by (simp add: has_shape_def)
  moreover have "j < int (length (lat ! nat i))" using has_shape_row[OF assms(1-3)] assms by simp
  ultimately show ?thesis using assms by (simp add: set_item_def py_index_range)
qed

lemma has_shape_update:
  assumes "has_shape R C lat" "0 \<le> i" "i < R"
  shows "has_shape R C (lat[nat i := (lat ! nat i)[k := v]])"
proof -
  have row: "int (length ((lat ! nat i)[k := v])) = C" using has_shape_row[OF assms] by simp
  have "int (length (lat[nat i := (lat ! nat i)[k := v]] ! n)) = C"
    if "n < length lat" for n
    using that row assms(1) by (cases "n = nat i") (simp_all add: has_shape_def list_all_length)
  then show ?thesis
    using assms(1) by (simp add: has_shape_def list_all_length)
qed

lemma has_shape_flip:
  "has_shape R C lat \<Longrightarrow> 0 \<le> fst p \<Longrightarrow> fst p < R \<Longrightarrow> has_shape R C (flip_at lat p)"
  unfolding flip_at_def by (rule has_shape_update)

lemma spin_flip:
  assumes "has_shape R C lat" "0 \<le> a" "a < R" "0 \<le> b" "b < C"
    and "0 \<le> i" "i < R" "0 \<le> j" "j < C"
  shows "spin (flip_at lat (a, b)) i j = (if i = a \<and> j = b then - spin lat a b else spin lat i j)"
proof -
  have la: "nat a < length lat" and li: "nat i < length lat"
    using assms by (simp_all add: has_shape_len[of R C])
  have lb: "nat b < length (lat ! nat a)" using has_shape_row[OF assms(1-3)] assms by simp
  have eq: "nat a = nat i \<longleftrightarrow> i = a" "nat b = nat j \<longleftrightarrow> j = b" using assms by auto
  show ?thesis
    using la li lb by (auto simp: flip_at_def spin_def nth_list_update eq)
qed

lemma flip_flip:
  assumes "has_shape R C lat" "0 \<le> a" "a < R" "0 \<le> b" "b < C"
  shows "flip_at (flip_at lat (a, b)) (a, b) = lat"
proof -
  have la: "nat a < length lat" using assms by (simp add: has_shape_len[of R C])
  have lb: "nat b < length (lat ! nat a)" using has_shape_row[OF assms(1-3)] assms by simp
  show ?thesis using la lb by (simp add: flip_at_def spin_def)
qed

section \<open>The methods on a proper object\<close>

lemma lattice_pbc_spin:
  assumes "on_grid st R C lat"
  shows "lattice_pbc st (i, j) = Inr (spin lat (i mod R) (j mod C))"
proof -
  have "item lat (i mod R, j mod C) = Inr (spin lat (i mod R) (j mod C))"
    using assms by (intro item_spin[of R C]) (simp_all add: on_grid_def)
  then show ?thesis
    using assms by (simp add: lattice_pbc_def attr_def pbc_def on_grid_def)
qed

lemma neighbours_nsum:
  assumes "on_grid st R C lat" "0 \<le> i" "i < R" "0 \<le> j" "j < C"
  shows "neighbours st (i, j) = Inr (nsum R C (spin lat) i j)"
  using assms(2-)
  by (simp add: neighbours_def lattice_pbc_spin[OF assms(1)] nsum_def)

lemma get_dE_pure:
  assumes "on_grid st R C lat" "0 \<le> i" "i < R" "0 \<le> j" "j < C"
  shows "get_dE st (i, j) = Inr (2 * spin lat i j * nsum R C (spin lat) i j)"
proof -
  have "item lat (i, j) = Inr (spin lat i j)"
    using assms by (intro item_spin[of R C]) (simp_all add: on_grid_def)
  then show ?thesis
    using assms(1) by (simp add: get_dE_def attr_def neighbours_nsum[OF assms] on_grid_def)
qed

lemma unit_E_pure:
  assumes "on_grid st R C lat" "0 \<le> i" "i < R" "0 \<le> j" "j < C"
  shows "unit_E st (i, j) = Inr (- spin lat i j * nsum R C (spin lat) i j)"
proof -
  have "item lat (i, j) = Inr (spin lat i j)"
    using assms by (intro item_spin[of R C]) (simp_all add: on_grid_def)
  then show ?thesis
    using assms(1) by (simp add: unit_E_def attr_def neighbours_nsum[OF assms] on_grid_def)
qed

lemma total_E_cols_pure:
  assumes "on_grid st R C lat" "0 \<le> i" "i < R" "\<forall>j \<in> set js. 0 \<le> j \<and> j < C"
  shows "total_E_cols st i js acc =
     Inr (acc + (\<Sum>j\<leftarrow>js. - spin lat i j * nsum R C (spin lat) i j))"
  using assms(4)
proof (induction js arbitrary: acc)
  case Nil
  then show ?case by simp
next
  case (Cons j js)
  then show ?case
    by (simp add: unit_E_pure[OF assms(1-3)])
qed

lemma sum_list_upto: "(\<Sum>k\<leftarrow>[0..n - 1]. f k) = (\<Sum>k = 0..<n. f k)" for n :: int
proof -
  have "{0..n - 1} = {0..<n}" by auto
  then show ?thesis
    by (simp add: sum_list_distinct_conv_sum_set)
qed

lemma total_E_rows_pure:
  assumes "on_grid st R C lat" "\<forall>i \<in> set is. 0 \<le> i \<and> i < R"
  shows "total_E_rows st is acc =
     Inr (acc + (\<Sum>i\<leftarrow>is. \<Sum>j = 0..<C. - spin lat i j * nsum R C (spin lat) i j))"
  using assms(2)
proof (induction "is" arbitrary: acc)
  case Nil
  then show ?case by simp
next
  case (Cons i "is")
  have C: "snd (size_rc st) = C" using assms(1) by (simp add: on_grid_def)
  have "total_E_cols st i [0..C - 1] acc =
     Inr (acc + (\<Sum>j\<leftarrow>[0..C - 1]. - spin lat i j * nsum R C (spin lat) i j))"
    using Cons.prems by (intro total_E_cols_pure[OF assms(1)]) auto
  then show ?case
    using Cons by (simp add: C sum_list_upto)
qed

lemma get_total_E_pure:
  assumes "on_grid st R C lat"
  shows "get_total_E st = Inr (real_of_int (energy2 R C (spin lat)) / 2)"
proof -
  have R: "fst (size_rc st) = R" using assms by (simp add: on_grid_def)
  have "total_E_rows st [0..R - 1] 0 =
     Inr (0 + (\<Sum>i\<leftarrow>[0..R - 1]. \<Sum>j = 0..<C. - spin lat i j * nsum R C (spin lat) i j))"
    by (intro total_E_rows_pure[OF assms]) auto
  then show ?thesis
    by (simp add: get_total_E_def R sum_list_upto energy2_def)
qed

lemma negate_item_pure:
  assumes "on_grid st R C lat" "0 \<le> i" "i < R" "0 \<le> j" "j < C"
  shows "negate_item st (i, j) = Inr (st\<lparr>lattice := Some (flip_at lat (i, j))\<rparr>)"
proof -
  have sh: "has_shape R C lat" using assms by (simp add: on_grid_def)
  show ?thesis
    using assms(1)
    by (simp add: negate_item_def attr_def on_grid_def item_spin[OF sh assms(2-)]
        set_item_range[OF sh assms(2-)] flip_at_def)
qed

lemma on_grid_flip:
  assumes "on_grid st R C lat" "0 \<le> i" "i < R"
  shows "on_grid (st\<lparr>lattice := Some (flip_at lat (i, j))\<rparr>) R C (flip_at lat (i, j))"
  using assms by (simp add: on_grid_def has_shape_flip)

lemma energy2_flip_at:
  assumes "has_shape R C lat" "2 \<le> R" "2 \<le> C" "0 \<le> a" "a < R" "0 \<le> b" "b < C"
  shows "energy2 R C (spin (flip_at lat (a, b))) =
         energy2 R C (spin lat) + 4 * spin lat a b * nsum R C (spin lat) a b"
  by (rule energy2_flip[OF assms(2-)]) (rule spin_flip[OF assms(1) assms(4-)])

lemma lattice_update_same: "lattice st = Some lat \<Longrightarrow> st\<lparr>lattice := Some lat\<rparr> = st"
  by (cases st) simp

text \<open>What one call of glauber does on a proper object.\<close>

lemma glauber_cases:
  assumes grid: "on_grid st R C lat" and e: "total_E st = Some e"
  shows "\<exists>i j g'. 0 \<le> i \<and> i < R \<and> 0 \<le> j \<and> j < C \<and>
     (glauber st g = Inr (st, g') \<or>
      glauber st g = Inr (st\<lparr>lattice := Some (flip_at lat (i, j)),
          total_E := Some (e + real_of_int (2 * spin lat i j * nsum R C (spin lat) i j))\<rparr>, g'))"
proof -
  have sz: "size_rc st = (R, C)" "0 < R" "0 < C" using grid by (simp_all add: on_grid_def)
  obtain i j where site: "random_site st g = Inr ((i, j), stl (stl g))"
    and ij: "0 \<le> i" "i < R" "0 \<le> j" "j < C"
    using random_site_range[OF sz] by blast
  define dE where "dE = 2 * spin lat i j * nsum R C (spin lat) i j"
  obtain outcome g2 where m: "metropolis st (real_of_int dE) (stl (stl g)) = (outcome, g2)"
    by (cases "metropolis st (real_of_int dE) (stl (stl g))") blast
  have dE: "get_dE st (i, j) = Inr dE" unfolding dE_def by (rule get_dE_pure[OF grid ij])
  have "glauber st g = Inr (st, g2) \<or>
      glauber st g = Inr (st\<lparr>lattice := Some (flip_at lat (i, j)), total_E := Some (e + real_of_int dE)\<rparr>, g2)"
    using e
    by (simp add: glauber_def site dE m negate_item_pure[OF grid ij] add_total_E_def attr_def)
  then show ?thesis using ij unfolding dE_def by blast
qed

lemma kawasaki_cases:
  assumes grid: "on_grid st R C lat" and e: "total_E st = Some e"
  shows "\<exists>i1 j1 i2 j2 g'. 0 \<le> i1 \<and> i1 < R \<and> 0 \<le> j1 \<and> j1 < C \<and>
       0 \<le> i2 \<and> i2 < R \<and> 0 \<le> j2 \<and> j2 < C \<and>
     (kawasaki st g = Inr (st, g') \<or>
      spin lat i1 j1 \<noteq> spin lat i2 j2 \<and>
      kawasaki st g = Inr (st\<lparr>lattice := Some (flip_at (flip_at lat (i1, j1)) (i2, j2)),
          total_E := Some (e + real_of_int
            (2 * spin lat i1 j1 * nsum R C (spin lat) i1 j1 +
             2 * spin (flip_at lat (i1, j1)) i2 j2 * nsum R C (spin (flip_at lat (i1, j1))) i2 j2))\<rparr>, g'))"
proof -
  have sz: "size_rc st = (R, C)" "0 < R" "0 < C" and lat: "lattice st = Some lat"
    and sh: "has_shape R C lat"
    using grid by (simp_all add: on_grid_def)
  obtain i1 j1 where site1: "random_site st g = Inr ((i1, j1), stl (stl g))"
    and p1: "0 \<le> i1" "i1 < R" "0 \<le> j1" "j1 < C"
    using random_site_range[OF sz] by blast
  obtain i2 j2 where site2: "random_site st (stl (stl g)) = Inr ((i2, j2), stl (stl (stl (stl g))))"
    and p2: "0 \<le> i2" "i2 < R" "0 \<le> j2" "j2 < C"
    using random_site_range[OF sz] by blast
  let ?g2 = "stl (stl (stl (stl g)))"
  let ?lat1 = "flip_at lat (i1, j1)"
  let ?st1 = "st\<lparr>lattice := Some ?lat1\<rparr>"
  define dE1 where "dE1 = 2 * spin lat i1 j1 * nsum R C (spin lat) i1 j1"
  define dE2 where "dE2 = 2 * spin ?lat1 i2 j2 * nsum R C (spin ?lat1) i2 j2"
  define dE where "dE = dE1 + dE2"
  have grid1: "on_grid ?st1 R C ?lat1" using on_grid_flip[OF grid p1(1,2)] .
  have restore: "negate_item ?st1 (i1, j1) = Inr st"
    using negate_item_pure[OF grid1 p1] flip_flip[OF sh p1] lat
    by (simp add: lattice_update_same)
  obtain outcome g3 where m: "metropolis st (real_of_int dE) ?g2 = (outcome, g3)"
    by (cases "metropolis st (real_of_int dE) ?g2") blast
  have d1: "get_dE st (i1, j1) = Inr dE1" unfolding dE1_def by (rule get_dE_pure[OF grid p1])
  have d2: "get_dE ?st1 (i2, j2) = Inr dE2" unfolding dE2_def by (rule get_dE_pure[OF grid1 p2])
  have step3: "negate_item st (i1, j1) = Inr ?st1" by (rule negate_item_pure[OF grid p1])
  have step4: "negate_item ?st1 (i2, j2) = Inr (st\<lparr>lattice := Some (flip_at ?lat1 (i2, j2))\<rparr>)"
    using negate_item_pure[OF grid1 p2] by simp
  show ?thesis
  proof (cases "spin lat i1 j1 = spin lat i2 j2")
    case True
    then have "kawasaki st g = Inr (st, ?g2)"
      by (simp add: kawasaki_def site1 site2 lat attr_def item_spin[OF sh p1] item_spin[OF sh p2])
    then show ?thesis using p1 p2 by blast
  next
    case False
    have "kawasaki st g = Inr (st, g3) \<or>
        kawasaki st g = Inr (st\<lparr>lattice := Some (flip_at ?lat1 (i2, j2)),
            total_E := Some (e + real_of_int dE)\<rparr>, g3)"
      using False e
      by (simp add: kawasaki_def site1 site2 lat attr_def item_spin[OF sh p1] item_spin[OF sh p2]
          d1 step3 d2 restore dE_def m[unfolded dE_def of_int_add] step4 add_total_E_def)
    then show ?thesis using p1 p2 False unfolding dE_def dE1_def dE2_def by blast
  qed
qed

section \<open>What one step preserves\<close>

lemma proper_on_grid:
  assumes "proper st"
  obtains R C lat e where "on_grid st R C lat" "total_E st = Some e" "0 < temp st"
proof -
  obtain lat where lat: "lattice st = Some lat"
    using assms by (auto simp: proper_def split: option.splits)
  obtain e where e: "total_E st = Some e"
    using assms lat by (auto simp: proper_def)
  have "on_grid st (fst (size_rc st)) (snd (size_rc st)) lat" "0 < temp st"
    using assms lat by (simp_all add: on_grid_def proper_def)
  then show ?thesis using that e by blast
qed

lemma on_grid_proper:
  "on_grid st R C lat \<Longrightarrow> total_E st \<noteq> None \<Longrightarrow> 0 < temp st \<Longrightarrow> proper st"
  by (auto simp: on_grid_def proper_def)

lemma proper_flip:
  assumes "on_grid st R C lat" "0 < temp st" "0 \<le> i" "i < R"
  shows "proper (st\<lparr>lattice := Some (flip_at lat (i, j)), total_E := Some x\<rparr>)"
  using assms by (simp add: on_grid_def proper_def has_shape_flip)

lemma energy_consistent_on_grid:
  assumes "on_grid st R C lat" "total_E st = Some e"
  shows "energy_consistent st \<longleftrightarrow> e = real_of_int (energy2 R C (spin lat)) / 2"
  using assms(2) by (auto simp: energy_consistent_def get_total_E_pure[OF assms(1)])

lemma energy_consistent_flip:
  assumes grid: "on_grid st R C lat" and e: "total_E st = Some e" and ok: "energy_consistent st"
    and big: "2 \<le> R" "2 \<le> C" and ij: "0 \<le> i" "i < R" "0 \<le> j" "j < C"
  shows "energy_consistent (st\<lparr>lattice := Some (flip_at lat (i, j)),
      total_E := Some (e + real_of_int (2 * spin lat i j * nsum R C (spin lat) i j))\<rparr>)"
proof -
  define dE where "dE = 2 * spin lat i j * nsum R C (spin lat) i j"
  define st' where "st' = st\<lparr>lattice := Some (flip_at lat (i, j)), total_E := Some (e + real_of_int dE)\<rparr>"
  have sh: "has_shape R C lat" using grid by (simp add: on_grid_def)
  have grid': "on_grid st' R C (flip_at lat (i, j))"
    using grid ij by (simp add: on_grid_def has_shape_flip st'_def)
  have tot: "total_E st' = Some (e + real_of_int dE)" by (simp add: st'_def)
  have old: "e = real_of_int (energy2 R C (spin lat)) / 2"
    using energy_consistent_on_grid[OF grid e] ok by simp
  have "energy2 R C (spin (flip_at lat (i, j))) = energy2 R C (spin lat) + 2 * dE"
    unfolding dE_def using energy2_flip_at[OF sh big ij] by simp
  then have "e + real_of_int dE = real_of_int (energy2 R C (spin (flip_at lat (i, j)))) / 2"
    using old by simp
  then have "energy_consistent st'"
    using energy_consistent_on_grid[OF grid' tot] by simp
  then show ?thesis unfolding st'_def dE_def .
qed

lemma glauber_invariant:
  assumes "proper st" "energy_consistent st" "2 \<le> fst (size_rc st)" "2 \<le> snd (size_rc st)"
  shows "\<exists>st' g'. glauber st g = Inr (st', g') \<and> proper st' \<and> energy_consistent st' \<and>
           size_rc st' = size_rc st"
proof -
  obtain R C lat e where grid: "on_grid st R C lat" and e: "total_E st = Some e" and t: "0 < temp st"
    using proper_on_grid[OF assms(1)] by blast
  have big: "2 \<le> R" "2 \<le> C" using grid assms(3,4) by (simp_all add: on_grid_def)
  obtain i j g' where ij: "0 \<le> i" "i < R" "0 \<le> j" "j < C"
    and res: "glauber st g = Inr (st, g') \<or>
      glauber st g = Inr (st\<lparr>lattice := Some (flip_at lat (i, j)),
          total_E := Some (e + real_of_int (2 * spin lat i j * nsum R C (spin lat) i j))\<rparr>, g')"
    using glauber_cases[OF grid e, of g] by blast
  from res show ?thesis
  proof
    assume "glauber st g = Inr (st, g')"
    then show ?thesis using assms by simp
  next
    assume "glauber st g = Inr (st\<lparr>lattice := Some (flip_at lat (i, j)),
          total_E := Some (e + real_of_int (2 * spin lat i j * nsum R C (spin lat) i j))\<rparr>, g')"
    then show ?thesis
      using proper_flip[OF grid t ij(1,2)] energy_consistent_flip[OF grid e assms(2) big ij]
      by simp
  qed
qed

lemma kawasaki_invariant:
  assumes "proper st" "energy_consistent st" "2 \<le> fst (size_rc st)" "2 \<le> snd (size_rc st)"
  shows "\<exists>st' g'. kawasaki st g = Inr (st', g') \<and> proper st' \<and> energy_consistent st' \<and>
           size_rc st' = size_rc st"
proof -
  obtain R C lat e where grid: "on_grid st R C lat" and e: "total_E st = Some e" and t: "0 < temp st"
    using proper_on_grid[OF assms(1)] by blast
  have big: "2 \<le> R" "2 \<le> C" using grid assms(3,4) by (simp_all add: on_grid_def)
  define dE1 where "dE1 = (\<lambda>i1 j1. 2 * spin lat i1 j1 * nsum R C (spin lat) i1 j1)"
  define dE2 where "dE2 = (\<lambda>i1 j1 i2 j2. 2 * spin (flip_at lat (i1, j1)) i2 j2 *
      nsum R C (spin (flip_at lat (i1, j1))) i2 j2)"
  obtain i1 j1 i2 j2 g' where p1: "0 \<le> i1" "i1 < R" "0 \<le> j1" "j1 < C"
    and p2: "0 \<le> i2" "i2 < R" "0 \<le> j2" "j2 < C"
    and res: "kawasaki st g = Inr (st, g') \<or>
      kawasaki st g = Inr (st\<lparr>lattice := Some (flip_at (flip_at lat (i1, j1)) (i2, j2)),
          total_E := Some (e + real_of_int (dE1 i1 j1 + dE2 i1 j1 i2 j2))\<rparr>, g')"
    using kawasaki_cases[OF grid e, of g] unfolding dE1_def dE2_def by blast
  from res show ?thesis
  proof
    assume "kawasaki st g = Inr (st, g')"
    then show ?thesis using assms by simp
  next
    assume acc: "kawasaki st g = Inr (st\<lparr>lattice := Some (flip_at (flip_at lat (i1, j1)) (i2, j2)),
          total_E := Some (e + real_of_int (dE1 i1 j1 + dE2 i1 j1 i2 j2))\<rparr>, g')"
    define st1 where "st1 = st\<lparr>lattice := Some (flip_at lat (i1, j1)),
          total_E := Some (e + real_of_int (dE1 i1 j1))\<rparr>"
    have ok1: "energy_consistent st1"
      unfolding st1_def dE1_def by (rule energy_consistent_flip[OF grid e assms(2) big p1])
    have grid1: "on_grid st1 R C (flip_at lat (i1, j1))"
      using grid p1 by (simp add: on_grid_def has_shape_flip st1_def)
    have e1: "total_E st1 = Some (e + real_of_int (dE1 i1 j1))" by (simp add: st1_def)
    have t1: "0 < temp st1" using t by (simp add: st1_def)
    have "energy_consistent (st1\<lparr>lattice := Some (flip_at (flip_at lat (i1, j1)) (i2, j2)),
          total_E := Some (e + real_of_int (dE1 i1 j1) + real_of_int (dE2 i1 j1 i2 j2))\<rparr>)"
      unfolding dE2_def by (rule energy_consistent_flip[OF grid1 e1 ok1 big p2])
    moreover have "proper (st1\<lparr>lattice := Some (flip_at (flip_at lat (i1, j1)) (i2, j2)),
          total_E := Some (e + real_of_int (dE1 i1 j1) + real_of_int (dE2 i1 j1 i2 j2))\<rparr>)"
      by (rule proper_flip[OF grid1 t1 p2(1,2)])
    ultimately show ?thesis
      using acc by (simp add: st1_def add.assoc)
  qed
qed

lemma sum_list_update_int:
  fixes xs :: "int list"
  shows "k < length xs \<Longrightarrow> sum_list (xs[k := x]) = sum_list xs - xs ! k + x"
  by (induction xs arbitrary: k) (auto split: nat.splits)

lemma np_sum_flip:
  assumes "has_shape R C lat" "0 \<le> i" "i < R" "0 \<le> j" "j < C"
  shows "np_sum (flip_at lat (i, j)) = np_sum lat - 2 * spin lat i j"
proof -
  have li: "nat i < length lat" using has_shape_len[OF assms(1-3)] .
  have lj: "nat j < length (lat ! nat i)" using has_shape_row[OF assms(1-3)] assms by simp
  show ?thesis
    using li lj
    by (simp add: np_sum_def flip_at_def map_update sum_list_update_int spin_def)
qed

lemma list_all_update:
  "list_all P xs \<Longrightarrow> P x \<Longrightarrow> list_all P (xs[k := x])"
  by (induction xs arbitrary: k) (auto split: nat.splits)

lemma spins_pm_flip:
  assumes "list_all (list_all (\<lambda>s. s = - 1 \<or> s = 1)) lat" "has_shape R C lat"
    "0 \<le> i" "i < R" "0 \<le> j" "j < C"
  shows "list_all (list_all (\<lambda>s. s = - 1 \<or> s = (1::int))) (flip_at lat (i, j))"
proof -
  have li: "nat i < length lat" using has_shape_len[OF assms(2-4)] .
  have lj: "nat j < length (lat ! nat i)" using has_shape_row[OF assms(2-4)] assms by simp
  have row: "list_all (\<lambda>s. s = - 1 \<or> s = 1) (lat ! nat i)"
    using assms(1) li by (simp add: list_all_length)
  then have "spin lat i j = - 1 \<or> spin lat i j = 1"
    using lj by (simp add: list_all_length spin_def)
  then have "list_all (\<lambda>s. s = - 1 \<or> s = 1) ((lat ! nat i)[nat j := - spin lat i j])"
    using row by (intro list_all_update) auto
  then show ?thesis
    unfolding flip_at_def using assms(1) by (simp add: list_all_update)
qed

lemma spin_pm:
  assumes "list_all (list_all (\<lambda>s. s = - 1 \<or> s = 1)) lat" "has_shape R C lat"
    "0 \<le> i" "i < R" "0 \<le> j" "j < C"
  shows "spin lat i j = - 1 \<or> spin lat i j = 1"
proof -
  have li: "nat i < length lat" using has_shape_len[OF assms(2-4)] .
  have lj: "nat j < length (lat ! nat i)" using has_shape_row[OF assms(2-4)] assms by simp
  show ?thesis using assms(1) li lj by (simp add: list_all_length spin_def)
qed

lemma kawasaki_spin_invariant:
  assumes "proper st" "spins_pm st"
  shows "\<exists>st' g'. kawasaki st g = Inr (st', g') \<and> proper st' \<and> spins_pm st' \<and>
           total_spin st' = total_spin st"
proof -
  obtain R C lat e where grid: "on_grid st R C lat" and e: "total_E st = Some e" and t: "0 < temp st"
    using proper_on_grid[OF assms(1)] by blast
  have lat: "lattice st = Some lat" and sh: "has_shape R C lat"
    using grid by (simp_all add: on_grid_def)
  have pm: "list_all (list_all (\<lambda>s. s = - 1 \<or> s = 1)) lat"
    using assms(2) lat by (simp add: spins_pm_def)
  obtain i1 j1 i2 j2 g' x where p1: "0 \<le> i1" "i1 < R" "0 \<le> j1" "j1 < C"
    and p2: "0 \<le> i2" "i2 < R" "0 \<le> j2" "j2 < C"
    and res: "kawasaki st g = Inr (st, g') \<or>
      spin lat i1 j1 \<noteq> spin lat i2 j2 \<and>
      kawasaki st g = Inr (st\<lparr>lattice := Some (flip_at (flip_at lat (i1, j1)) (i2, j2)),
          total_E := Some x\<rparr>, g')"
    using kawasaki_cases[OF grid e, of g] by blast
  from res show ?thesis
  proof
    assume "kawasaki st g = Inr (st, g')"
    then show ?thesis using assms by simp
  next
    assume "spin lat i1 j1 \<noteq> spin lat i2 j2 \<and>
      kawasaki st g = Inr (st\<lparr>lattice := Some (flip_at (flip_at lat (i1, j1)) (i2, j2)),
          total_E := Some x\<rparr>, g')"
    then have ne: "spin lat i1 j1 \<noteq> spin lat i2 j2"
      and acc: "kawasaki st g = Inr (st\<lparr>lattice := Some (flip_at (flip_at lat (i1, j1)) (i2, j2)),
          total_E := Some x\<rparr>, g')" by simp_all
    let ?lat1 = "flip_at lat (i1, j1)"
    have sh1: "has_shape R C ?lat1" using has_shape_flip[OF sh, of "(i1, j1)"] p1 by simp
    have pm1: "list_all (list_all (\<lambda>s. s = - 1 \<or> s = 1)) ?lat1"
      by (rule spins_pm_flip[OF pm sh p1])
    have pm2: "list_all (list_all (\<lambda>s. s = - 1 \<or> s = 1)) (flip_at ?lat1 (i2, j2))"
      by (rule spins_pm_flip[OF pm1 sh1 p2])
    have "\<not> (i2 = i1 \<and> j2 = j1)" using ne by auto
    then have s2: "spin ?lat1 i2 j2 = spin lat i2 j2"
      using spin_flip[OF sh p1 p2] by auto
    have opp: "spin lat i1 j1 + spin lat i2 j2 = 0"
      using spin_pm[OF pm sh p1] spin_pm[OF pm sh p2] ne by auto
    have "np_sum (flip_at ?lat1 (i2, j2)) = np_sum lat - 2 * spin lat i1 j1 - 2 * spin lat i2 j2"
      using np_sum_flip[OF sh1 p2] np_sum_flip[OF sh p1] s2 by simp
    then have sum: "np_sum (flip_at ?lat1 (i2, j2)) = np_sum lat" using opp by simp
    have grid1: "on_grid (st\<lparr>lattice := Some ?lat1\<rparr>) R C ?lat1" by (rule on_grid_flip[OF grid p1(1,2)])
    have "proper (st\<lparr>lattice := Some ?lat1\<rparr>\<lparr>lattice := Some (flip_at ?lat1 (i2, j2)), total_E := Some x\<rparr>)"
      by (rule proper_flip[OF grid1 _ p2(1,2)]) (simp add: t)
    then show ?thesis
      using acc pm2 sum lat by (simp add: spins_pm_def total_spin_def)
  qed
qed

section \<open>Runs of steps\<close>

lemma step_invariant:
  assumes "proper st" "energy_consistent st" "2 \<le> fst (size_rc st)" "2 \<le> snd (size_rc st)"
  shows "\<exists>st' g'. step m (st, g) = Inr (st', g') \<and> proper st' \<and> energy_consistent st' \<and>
           size_rc st' = size_rc st"
  using glauber_invariant[OF assms, of g] kawasaki_invariant[OF assms, of g]
  by (cases m) (simp_all add: step_def)

lemma steps_invariant:
  assumes "proper st" "energy_consistent st" "2 \<le> fst (size_rc st)" "2 \<le> snd (size_rc st)"
  shows "\<exists>st' g'. steps ms (st, g) = Inr (st', g') \<and> proper st' \<and> energy_consistent st'"
  using assms
proof (induction ms arbitrary: st g)
  case Nil
  then show ?case by simp
next
  case (Cons m ms)
  obtain st1 g1 where 1: "step m (st, g) = Inr (st1, g1)" "proper st1" "energy_consistent st1"
      "size_rc st1 = size_rc st"
    using step_invariant[OF Cons.prems, of m g] by blast
  have "\<exists>st' g'. steps ms (st1, g1) = Inr (st', g') \<and> proper st' \<and> energy_consistent st'"
    using Cons.IH[of st1 g1] 1 Cons.prems by simp
  then show ?case using 1(1) by simp
qed

lemma glauber_proper:
  assumes "proper st"
  shows "\<exists>st' g'. glauber st g = Inr (st', g') \<and> proper st'"
proof -
  obtain R C lat e where grid: "on_grid st R C lat" and e: "total_E st = Some e" and t: "0 < temp st"
    using proper_on_grid[OF assms] by blast
  obtain i j g' x where ij: "0 \<le> i" "i < R"
    and res: "glauber st g = Inr (st, g') \<or>
      glauber st g = Inr (st\<lparr>lattice := Some (flip_at lat (i, j)), total_E := Some x\<rparr>, g')"
    using glauber_cases[OF grid e, of g] by blast
  show ?thesis using res assms proper_flip[OF grid t ij, where j = j and x = x] by auto
qed

lemma kawasaki_proper:
  assumes "proper st"
  shows "\<exists>st' g'. kawasaki st g = Inr (st', g') \<and> proper st'"
proof -
  obtain R C lat e where grid: "on_grid st R C lat" and e: "total_E st = Some e" and t: "0 < temp st"
    using proper_on_grid[OF assms] by blast
  obtain i1 j1 i2 j2 g' x where p1: "0 \<le> i1" "i1 < R" and p2: "0 \<le> i2" "i2 < R"
    and res: "kawasaki st g = Inr (st, g') \<or>
      kawasaki st g = Inr (st\<lparr>lattice := Some (flip_at (flip_at lat (i1, j1)) (i2, j2)),
          total_E := Some x\<rparr>, g')"
    using kawasaki_cases[OF grid e, of g] by blast
  have grid1: "on_grid (st\<lparr>lattice := Some (flip_at lat (i1, j1))\<rparr>) R C (flip_at lat (i1, j1))"
    by (rule on_grid_flip[OF grid p1])
  have "proper (st\<lparr>lattice := Some (flip_at lat (i1, j1))\<rparr>\<lparr>lattice := Some (flip_at (flip_at lat (i1, j1)) (i2, j2)), total_E := Some x\<rparr>)"
    by (rule proper_flip[OF grid1 _ p2]) (simp add: t)
  then show ?thesis using res assms by auto
qed

lemma glauber_spin_invariant:
  assumes "proper st" "spins_pm st"
  shows "\<exists>st' g'. glauber st g = Inr (st', g') \<and> proper st' \<and> spins_pm st'"
proof -
  obtain R C lat e where grid: "on_grid st R C lat" and e: "total_E st = Some e" and t: "0 < temp st"
    using proper_on_grid[OF assms(1)] by blast
  have lat: "lattice st = Some lat" and sh: "has_shape R C lat"
    using grid by (simp_all add: on_grid_def)
  have pm: "list_all (list_all (\<lambda>s. s = - 1 \<or> s = 1)) lat"
    using assms(2) lat by (simp add: spins_pm_def)
  obtain i j g' x where ij: "0 \<le> i" "i < R" "0 \<le> j" "j < C"
    and res: "glauber st g = Inr (st, g') \<or>
      glauber st g = Inr (st\<lparr>lattice := Some (flip_at lat (i, j)), total_E := Some x\<rparr>, g')"
    using glauber_cases[OF grid e, of g] by blast
  show ?thesis
    using res assms proper_flip[OF grid t ij(1,2), where j = j and x = x] spins_pm_flip[OF pm sh ij]
    by (auto simp: spins_pm_def)
qed

lemma frac_half: "frac (1 / 2 :: real) = 1 / 2"
  by (simp add: frac_eq)

lemma kawasaki_mixed2:
  "kawasaki mixed2 pick_00_01 =
     Inr (mixed2\<lparr>lattice := Some [[- 1, 1], [1, 1]], total_E := Some 0\<rparr>, sconst 0)"
  by (simp add: kawasaki_def random_site_def np_randint_def mixed2_def pick_00_01_def frac_half
      attr_def item_def set_item_def py_index_def get_dE_def neighbours_def lattice_pbc_def pbc_def
      negate_item_def metropolis_def np_random_def add_total_E_def Let_def)

lemma proper_up2: "proper up2"
  by (simp add: proper_def up2_def has_shape_def)

lemma get_total_E_up2: "get_total_E up2 = Inr (- 8)"
  by (simp add: up2_def get_total_E_def upto.simps unit_E_def neighbours_def lattice_pbc_def
      pbc_def attr_def item_def py_index_def numeral_2_eq_2)

section \<open>The constructor\<close>

lemma has_shape_ones:
  "0 \<le> R \<Longrightarrow> 0 \<le> C \<Longrightarrow> has_shape R C (replicate (nat R) (replicate (nat C) 1))"
  by (simp add: has_shape_def list_all_length)

lemma set_total_E_on_grid:
  assumes "on_grid st R C lat" "0 < temp st"
  shows "\<exists>e. set_total_E st = Inr (st\<lparr>total_E := Some e\<rparr>) \<and>
           proper (st\<lparr>total_E := Some e\<rparr>) \<and> energy_consistent (st\<lparr>total_E := Some e\<rparr>)"
proof -
  let ?e = "real_of_int (energy2 R C (spin lat)) / 2"
  have grid': "on_grid (st\<lparr>total_E := Some ?e\<rparr>) R C lat"
    using assms(1) by (simp add: on_grid_def)
  have "set_total_E st = Inr (st\<lparr>total_E := Some ?e\<rparr>)"
    by (simp add: set_total_E_def get_total_E_pure[OF assms(1)])
  moreover have "proper (st\<lparr>total_E := Some ?e\<rparr>)"
    using grid' assms(2) by (intro on_grid_proper[OF grid']) simp_all
  moreover have "energy_consistent (st\<lparr>total_E := Some ?e\<rparr>)"
    by (simp add: energy_consistent_def get_total_E_pure[OF grid'])
  ultimately show ?thesis by blast
qed

lemma total_E_rows_empty:
  assumes "snd (size_rc st) \<le> 0"
  shows "total_E_rows st is acc = Inr acc"
proof -
  have "[0..snd (size_rc st) - 1] = []" using assms by simp
  then show ?thesis by (induction "is") simp_all
qed

lemma get_total_E_empty:
  assumes "fst (size_rc st) \<le> 0 \<or> snd (size_rc st) \<le> 0"
  shows "get_total_E st = Inr 0"
proof (cases "snd (size_rc st) \<le> 0")
  case True
  then show ?thesis by (simp add: get_total_E_def total_E_rows_empty)
next
  case False
  then have "[0..fst (size_rc st) - 1] = []" using assms by simp
  then show ?thesis by (simp add: get_total_E_def)
qed

lemma init_u:
  assumes "0 \<le> R" "0 \<le> C"
  shows "\<exists>e. init (R, C) t ''u'' d g =
     Inr (\<lparr>size_rc = (R, C), temp = t, ini = ''u'', dynamics = d,
           lattice = Some (replicate (nat R) (replicate (nat C) 1)), total_E = Some e\<rparr>, g)"
proof -
  let ?lat = "replicate (nat R) (replicate (nat C) (1::int))"
  let ?st = "\<lparr>size_rc = (R, C), temp = t, ini = ''u'', dynamics = d,
           lattice = Some ?lat, total_E = None\<rparr>"
  have "\<exists>e. get_total_E ?st = Inr e"
  proof (cases "0 < R \<and> 0 < C")
    case True
    then have "on_grid ?st R C ?lat" using has_shape_ones[of R C] by (simp add: on_grid_def)
    then show ?thesis using get_total_E_pure by blast
  next
    case False
    then have "get_total_E ?st = Inr 0" by (intro get_total_E_empty) auto
    then show ?thesis by blast
  qed
  then obtain e where "get_total_E ?st = Inr e" by blast
  then have "init (R, C) t ''u'' d g = Inr (?st\<lparr>total_E := Some e\<rparr>, g)"
    using assms
    by (simp add: init_def build_lattice_def build_r_def build_u_def build_k_def np_ones_def
        set_total_E_def)
  then show ?thesis by auto
qed

lemma choice_row_pm:
  "choice_row [- 1, 1] n g = Inr (xs, g') \<Longrightarrow>
     length xs = n \<and> list_all (\<lambda>s. s = - 1 \<or> s = 1) xs"
proof (induction n arbitrary: g xs g')
  case 0
  then show ?case by simp
next
  case (Suc n)
  obtain k where k: "np_randint 0 2 g = Inr (k, stl g)" "0 \<le> k" "k < 2"
    using np_randint_range[of 0 2 g] by auto
  then have pm: "[- 1, 1 :: int] ! nat k = - 1 \<or> [- 1, 1 :: int] ! nat k = 1"
    by (cases "k = 0") (auto simp: nth_Cons')
  from Suc.prems k obtain ys g2 where rest: "choice_row [- 1, 1] n (stl g) = Inr (ys, g2)"
    and xs: "xs = [- 1, 1] ! nat k # ys"
    by (cases "choice_row [- 1, 1] n (stl g)") auto
  show ?case using Suc.IH[OF rest] xs pm by simp
qed

lemma choice_rows_pm:
  "choice_rows [- 1, 1] r c g = Inr (lat, g') \<Longrightarrow>
     length lat = r \<and> list_all (\<lambda>row. length row = c) lat \<and>
     list_all (list_all (\<lambda>s. s = - 1 \<or> s = 1)) lat"
proof (induction r arbitrary: g lat g')
  case 0
  then show ?case by simp
next
  case (Suc r)
  from Suc.prems obtain row g1 where row: "choice_row [- 1, 1] c g = Inr (row, g1)"
    by (cases "choice_row [- 1, 1] c g") auto
  from Suc.prems row obtain rows g2 where rest: "choice_rows [- 1, 1] r c g1 = Inr (rows, g2)"
    and lat: "lat = row # rows"
    by (cases "choice_rows [- 1, 1] r c g1") auto
  show ?case using Suc.IH[OF rest] choice_row_pm[OF row] lat by simp
qed

lemma split_lattice_k:
  assumes "np_ones (R, C) = Inr lat" "np_ones (50, 25) = Inr ones"
    and "assign_cols_from lat 25 (map (map uminus) ones) = Inr lat'" "0 < R" "0 < C"
  shows "has_shape R C lat' \<and> list_all (list_all (\<lambda>s. s = - 1 \<or> s = 1)) lat'"
proof -
  have lat: "lat = replicate (nat R) (replicate (nat C) 1)"
    and ones: "ones = replicate 50 (replicate 25 1)"
    using assms(1,2,4,5) by (auto simp: np_ones_def)
  have cond: "length lat = length (map (map uminus) ones) \<and>
      list_all2 (\<lambda>row arow. length row - 25 = length arow) lat (map (map uminus) ones)"
    using assms(3) by (auto simp: assign_cols_from_def split: if_splits)
  then have R: "nat R = 50" by (simp add: lat ones)
  have "\<forall>k<50. length (lat ! k) - 25 = length (map (map uminus) ones ! k)"
    using cond unfolding lat ones R by (simp add: list_all2_conv_all_nth)
  then have "length (lat ! 0) - 25 = length (map (map uminus) ones ! 0)" by simp
  then have C: "nat C = 50" unfolding lat ones R by simp
  have lat': "lat' = replicate 50 (replicate 25 1 @ replicate 25 (- 1))"
    using assms(3) cond unfolding assign_cols_from_def lat ones R C
    by (simp add: zip_replicate map_replicate_const)
  have "R = 50" "C = 50" using R C by simp_all
  then show ?thesis
    unfolding lat' by (simp add: has_shape_def list_all_length nth_append)
qed

text \<open>
  Every object the constructor builds with a positive size and temperature is proper,
  its spins are \<open>-1\<close> or \<open>1\<close>, and its \<^verbatim>\<open>total_E\<close> is the energy of its grid.
\<close>

lemma init_proper:
  assumes init: "init (R, C) t i d g = Inr (st, g')"
    and i: "i = ''r'' \<or> i = ''u'' \<or> i = ''k''" and pos: "0 < R" "0 < C" "0 < t"
  shows "proper st \<and> energy_consistent st \<and> spins_pm st \<and> size_rc st = (R, C) \<and> temp st = t"
proof -
  let ?st0 = "\<lparr>size_rc = (R, C), temp = t, ini = i, dynamics = d, lattice = None, total_E = None\<rparr>"
  have final: ?thesis
    if sh: "has_shape R C lat" and pm: "list_all (list_all (\<lambda>s. s = - 1 \<or> s = 1)) lat"
      and run: "\<And>e. set_total_E (?st0\<lparr>lattice := Some lat\<rparr>) = Inr (?st0\<lparr>lattice := Some lat, total_E := Some e\<rparr>)
        \<Longrightarrow> init (R, C) t i d g = Inr (?st0\<lparr>lattice := Some lat, total_E := Some e\<rparr>, g1)"
    for lat g1
  proof -
    have grid: "on_grid (?st0\<lparr>lattice := Some lat\<rparr>) R C lat"
      using sh pos by (simp add: on_grid_def)
    obtain e where e: "set_total_E (?st0\<lparr>lattice := Some lat\<rparr>) = Inr (?st0\<lparr>lattice := Some lat, total_E := Some e\<rparr>)"
      and p: "proper (?st0\<lparr>lattice := Some lat, total_E := Some e\<rparr>)"
      and c: "energy_consistent (?st0\<lparr>lattice := Some lat, total_E := Some e\<rparr>)"
      using set_total_E_on_grid[OF grid] pos(3) by auto
    have "st = ?st0\<lparr>lattice := Some lat, total_E := Some e\<rparr>" using run[OF e] init by simp
    then show ?thesis using p c pm by (simp add: spins_pm_def)
  qed
  from i show ?thesis
  proof (elim disjE)
    assume r: "i = ''r''"
    from init r pos obtain lat g1 where ch: "choice_rows [- 1, 1] (nat R) (nat C) g = Inr (lat, g1)"
      by (cases "choice_rows [- 1, 1] (nat R) (nat C) g")
         (auto simp: init_def build_lattice_def build_r_def np_random_choice_def)
    have sh: "has_shape R C lat"
      using choice_rows_pm[OF ch] pos by (simp add: has_shape_def list_all_length)
    show ?thesis
    proof (rule final[OF sh])
      show "list_all (list_all (\<lambda>s. s = - 1 \<or> s = 1)) lat" using choice_rows_pm[OF ch] by simp
    next
      fix e assume "set_total_E (?st0\<lparr>lattice := Some lat\<rparr>) = Inr (?st0\<lparr>lattice := Some lat, total_E := Some e\<rparr>)"
      then show "init (R, C) t i d g = Inr (?st0\<lparr>lattice := Some lat, total_E := Some e\<rparr>, g1)"
        using r pos ch
        by (simp add: init_def build_lattice_def build_r_def build_u_def build_k_def np_random_choice_def)
    qed
  next
    assume u: "i = ''u''"
    show ?thesis
    proof (rule final[OF has_shape_ones[of R C]])
      show "list_all (list_all (\<lambda>s. s = - 1 \<or> s = 1)) (replicate (nat R) (replicate (nat C) (1::int)))"
        by (simp add: list_all_length)
    next
      fix e assume "set_total_E (?st0\<lparr>lattice := Some (replicate (nat R) (replicate (nat C) 1))\<rparr>) =
          Inr (?st0\<lparr>lattice := Some (replicate (nat R) (replicate (nat C) 1)), total_E := Some e\<rparr>)"
      then show "init (R, C) t i d g =
          Inr (?st0\<lparr>lattice := Some (replicate (nat R) (replicate (nat C) 1)), total_E := Some e\<rparr>, g)"
        using u pos
        by (simp add: init_def build_lattice_def build_r_def build_u_def build_k_def np_ones_def)
    qed (use pos in simp_all)
  next
    assume k: "i = ''k''"
    obtain lat ones where a: "np_ones (R, C) = Inr lat" "np_ones (50, 25) = Inr ones"
      using pos by (simp add: np_ones_def)
    from init k a obtain lat' where b: "assign_cols_from lat 25 (map (map uminus) ones) = Inr lat'"
      by (cases "assign_cols_from lat 25 (map (map uminus) ones)")
         (auto simp: init_def build_lattice_def build_r_def build_u_def build_k_def)
    show ?thesis
    proof (rule final)
      show "has_shape R C lat'" "list_all (list_all (\<lambda>s. s = - 1 \<or> s = 1)) lat'"
        using split_lattice_k[OF a b pos(1,2)] by simp_all
    next
      fix e assume "set_total_E (?st0\<lparr>lattice := Some lat'\<rparr>) = Inr (?st0\<lparr>lattice := Some lat', total_E := Some e\<rparr>)"
      then show "init (R, C) t i d g = Inr (?st0\<lparr>lattice := Some lat', total_E := Some e\<rparr>, g)"
        using k a b
        by (simp add: init_def build_lattice_def build_r_def build_u_def build_k_def)
    qed
  qed
qed

section \<open>The acceptance probability\<close>




lemma frac_quarter: "frac (1 / 4 :: real) = 1 / 4"
  by (simp add: frac_eq)

lemma quarter_le_exp: "(1 / 4 :: real) \<le> exp (- 1)"
proof -
  have "exp (1::real) \<le> 4" using exp_le by simp
  then have "1 / 4 \<le> 1 / exp (1::real)" by (simp add: field_simps)
  then show ?thesis by (simp add: exp_minus inverse_eq_divide)
qed

lemma one_le_exp_times_4: "1 \<le> exp (- 1) * (4::real)"
  using quarter_le_exp by simp

section \<open>The bootstrap and the driver\<close>

lemma draw_index_range:
  assumes "draw_index energies g = Inr (r, g')"
  shows "0 \<le> r \<and> r < int (length energies) - 1 \<and> g' = stl g"
proof -
  have lt: "0 < int (length energies) - 1"
    using assms by (auto simp: draw_index_def np_randint_def split: if_splits)
  show ?thesis
    using np_randint_range[OF lt, of g] assms by (auto simp: draw_index_def)
qed

lemma resample_butlast:
  "resample energies k g = Inr (sampling_data, g') \<Longrightarrow> set sampling_data \<subseteq> set (butlast energies)"
proof (induction k arbitrary: g g' sampling_data)
  case 0
  then show ?case by simp
next
  case (Suc k)
  from Suc.prems obtain r g1 where d: "draw_index energies g = Inr (r, g1)"
    by (cases "draw_index energies g") auto
  have r: "0 \<le> r" "r < int (length energies) - 1" using draw_index_range[OF d] by simp_all
  then have get: "py_get energies r = Inr (energies ! nat r)"
    by (simp add: py_get_def py_index_def)
  from Suc.prems d get obtain xs g2 where rest: "resample energies k g1 = Inr (xs, g2)"
    and sd: "sampling_data = energies ! nat r # xs"
    by (cases "resample energies k g1") auto
  have "nat r < length (butlast energies)" using r by simp
  then have "energies ! nat r \<in> set (butlast energies)"
    by (metis nth_butlast nth_mem)
  then show ?case using Suc.IH[OF rest] sd by simp
qed

lemma temp_loop_other:
  assumes "p_dynamics ps \<noteq> ''glauber''" "p_dynamics ps \<noteq> ''kawasaki''"
    and "0 \<le> fst (p_lattice_size ps)" "0 \<le> snd (p_lattice_size ps)"
  shows "temp_loop ps ts out g = Inr (out, g)"
proof (induction ts)
  case Nil
  then show ?case by simp
next
  case (Cons t ts)
  obtain e where "init (fst (p_lattice_size ps), snd (p_lattice_size ps)) t ''u'' (p_dynamics ps) g =
     Inr (\<lparr>size_rc = (fst (p_lattice_size ps), snd (p_lattice_size ps)), temp = t, ini = ''u'',
           dynamics = p_dynamics ps,
           lattice = Some (replicate (nat (fst (p_lattice_size ps))) (replicate (nat (snd (p_lattice_size ps))) 1)),
           total_E = Some e\<rparr>, g)"
    using init_u[OF assms(3,4)] by blast
  then show ?case using Cons assms(1,2) by simp
qed

lemma sampling_due_value:
  "p_n ps \<noteq> 0 \<Longrightarrow>
   sampling_due ps j = Inr (p_eqm_sweeps ps \<le> j + 1 \<and> (j + 1) mod p_n ps = 0)"
  by (simp add: sampling_due_def)

lemma glauber_body_count:
  assumes "p_n ps \<noteq> 0" "proper (model s)"
  shows "\<exists>s'. glauber_body ps j s = Inr s' \<and> proper (model s') \<and>
     length (energy_per_temp s') = length (energy_per_temp s) +
        (if p_eqm_sweeps ps \<le> j + 1 \<and> (j + 1) mod p_n ps = 0 then 1 else 0) \<and>
     length (mag_per_temp s') = length (mag_per_temp s) +
        (if p_eqm_sweeps ps \<le> j + 1 \<and> (j + 1) mod p_n ps = 0 then 1 else 0)"
proof -
  obtain st' g' where g: "glauber (model s) (gen s) = Inr (st', g')" and p: "proper st'"
    using glauber_proper[OF assms(2)] by blast
  obtain lat e where "lattice st' = Some lat" "total_E st' = Some e"
    using p by (auto simp: proper_def split: option.splits)
  then show ?thesis
    using g p by (simp add: glauber_body_def sampling_due_value[OF assms(1)] attr_def get_abs_M_def)
qed

lemma kawasaki_body_count:
  assumes "p_n ps \<noteq> 0" "proper (model s)"
  shows "\<exists>s'. kawasaki_body ps j s = Inr s' \<and> proper (model s') \<and>
     length (energy_per_temp s') = length (energy_per_temp s) +
        (if p_eqm_sweeps ps \<le> j + 1 \<and> (j + 1) mod p_n ps = 0 then 1 else 0)"
proof -
  obtain st' g' where g: "kawasaki (model s) (gen s) = Inr (st', g')" and p: "proper st'"
    using kawasaki_proper[OF assms(2)] by blast
  obtain e where "total_E st' = Some e"
    using p by (auto simp: proper_def split: option.splits)
  then show ?thesis
    using g p by (simp add: kawasaki_body_def sampling_due_value[OF assms(1)] attr_def)
qed

lemma repeat_count:
  fixes f :: "'s \<Rightarrow> nat"
  assumes body: "\<And>s. P s \<Longrightarrow> \<exists>s'. body s = Inr s' \<and> P s' \<and> f s' = f s + c" and "P s"
  shows "\<exists>s'. repeat k body s = Inr s' \<and> P s' \<and> f s' = f s + k * c"
  using assms(2)
proof (induction k arbitrary: s)
  case 0
  then show ?case by simp
next
  case (Suc k)
  obtain s1 where 1: "body s = Inr s1" "P s1" "f s1 = f s + c" using body[OF Suc.prems] by blast
  obtain s2 where 2: "repeat k body s1 = Inr s2" "P s2" "f s2 = f s1 + k * c"
    using Suc.IH[OF 1(2)] by blast
  show ?case using 1 2 by simp
qed

lemma sweep_loop_count:
  fixes f :: "run \<Rightarrow> nat"
  assumes body: "\<And>j s. P s \<Longrightarrow>
      \<exists>s'. body j s = Inr s' \<and> P s' \<and> f s' = f s + (if due j then 1 else 0)" and "P s"
  shows "\<exists>s'. sweep_loop body sz js s = Inr s' \<and> P s' \<and>
           f s' = f s + nat (fst sz * snd sz) * length (filter due js)"
  using assms(2)
proof (induction js arbitrary: s)
  case Nil
  then show ?case by simp
next
  case (Cons j js)
  obtain s1 where 1: "repeat (nat (fst sz * snd sz)) (body j) s = Inr s1" "P s1"
      "f s1 = f s + nat (fst sz * snd sz) * (if due j then 1 else 0)"
    using repeat_count[of P "body j" f "if due j then 1 else 0" s, OF body Cons.prems] by blast
  obtain s2 where 2: "sweep_loop body sz js s1 = Inr s2" "P s2"
      "f s2 = f s1 + nat (fst sz * snd sz) * length (filter due js)"
    using Cons.IH[OF 1(2)] by blast
  show ?case using 1 2 by (simp add: algebra_simps)
qed

lemma glauber_sweeps_samples:
  assumes "p_n ps \<noteq> 0" "proper (model s)"
  shows "\<exists>s'. sweep_loop (glauber_body ps) sz js s = Inr s' \<and>
     length (energy_per_temp s') = length (energy_per_temp s) +
       nat (fst sz * snd sz) *
       length (filter (\<lambda>j. p_eqm_sweeps ps \<le> j + 1 \<and> (j + 1) mod p_n ps = 0) js)"
  using sweep_loop_count[of "\<lambda>s. proper (model s)" "glauber_body ps" "\<lambda>s. length (energy_per_temp s)"
      "\<lambda>j. p_eqm_sweeps ps \<le> j + 1 \<and> (j + 1) mod p_n ps = 0" s sz js]
    glauber_body_count[OF assms(1)] assms(2) by blast

lemma kawasaki_sweeps_samples:
  assumes "p_n ps \<noteq> 0" "proper (model s)"
  shows "\<exists>s'. sweep_loop (kawasaki_body ps) sz js s = Inr s' \<and>
     length (energy_per_temp s') = length (energy_per_temp s) +
       nat (fst sz * snd sz) *
       length (filter (\<lambda>j. p_eqm_sweeps ps \<le> j + 1 \<and> (j + 1) mod p_n ps = 0) js)"
  using sweep_loop_count[of "\<lambda>s. proper (model s)" "kawasaki_body ps" "\<lambda>s. length (energy_per_temp s)"
      "\<lambda>j. p_eqm_sweeps ps \<le> j + 1 \<and> (j + 1) mod p_n ps = 0" s sz js]
    kawasaki_body_count[OF assms(1)] assms(2) by blast

section \<open>The properties\<close>

text \<open>
  C1. The claim is stated for every lattice; it fails on a lattice with a single row
  or a single column, where a site is its own neighbour and \<^verbatim>\<open>get_dE\<close> is not the
  change of \<^verbatim>\<open>get_total_E\<close> (the counterexample below). Amended: on a proper object
  with at least two rows and two columns whose \<^verbatim>\<open>total_E\<close> is what \<^verbatim>\<open>get_total_E()\<close>
  returns, every finite sequence of \<^verbatim>\<open>glauber()\<close> and \<^verbatim>\<open>kawasaki()\<close> calls runs to its
  end, whatever the random draws, and on the resulting object \<^verbatim>\<open>total_E\<close> is again
  exactly what \<^verbatim>\<open>get_total_E()\<close> returns. Every object the constructor builds with such
  a size and a positive temperature meets the hypotheses (\<open>init_proper\<close>).
\<close>

theorem energy_invariant:
  assumes "proper st" and "2 \<le> fst (size_rc st)" and "2 \<le> snd (size_rc st)"
    and "total_E st = Some e" and "get_total_E st = Inr e"
  shows "\<exists>st' g' e'. steps ms (st, g) = Inr (st', g') \<and>
           total_E st' = Some e' \<and> get_total_E st' = Inr e'"
proof -
  have "energy_consistent st" using assms(4,5) by (simp add: energy_consistent_def)
  then obtain st' g' where "steps ms (st, g) = Inr (st', g')" "energy_consistent st'"
    using steps_invariant[OF assms(1) _ assms(2,3), of ms g] by blast
  then show ?thesis
    by (cases "total_E st'") (auto simp: energy_consistent_def)
qed

theorem energy_invariant_witness:
  "proper up2 \<and> 2 \<le> fst (size_rc up2) \<and> 2 \<le> snd (size_rc up2) \<and>
   total_E up2 = Some (- 8) \<and> get_total_E up2 = Inr (- 8) \<and>
   (\<exists>st' g' e'. steps [Glauber, Kawasaki, Glauber] (up2, sconst 0) = Inr (st', g') \<and>
      total_E st' = Some e' \<and> get_total_E st' = Inr e')"
proof -
  have sz: "2 \<le> fst (size_rc up2)" "2 \<le> snd (size_rc up2)" and e: "total_E up2 = Some (- 8)"
    by (simp_all add: up2_def)
  show ?thesis
    using energy_invariant[OF proper_up2 sz e get_total_E_up2, of "[Glauber, Kawasaki, Glauber]" "sconst 0"]
      proper_up2 sz e get_total_E_up2 by simp
qed

text \<open>
  C1, counterexample. The constructor builds the 1 by 1 up lattice with
  \<^verbatim>\<open>total_E = -2\<close>, which is what \<^verbatim>\<open>get_total_E()\<close> returns. One call of \<^verbatim>\<open>glauber()\<close>
  with the draw \<open>1/4\<close> is accepted at temperature 8 (\<open>dE = 8\<close>, \<open>exp(-1) > 1/4\<close>): the
  spin flips and \<^verbatim>\<open>total_E\<close> becomes 6, while \<^verbatim>\<open>get_total_E()\<close> still returns \<open>-2\<close>.
\<close>

theorem energy_invariant_counterexample:
  "init (1, 1) 8 ''u'' ''glauber'' (sconst (1 / 4)) = Inr (warm1, sconst (1 / 4)) \<and>
   get_total_E warm1 = Inr (- 2) \<and>
   glauber warm1 (sconst (1 / 4)) =
     Inr (warm1\<lparr>lattice := Some [[- 1]], total_E := Some 6\<rparr>, sconst (1 / 4)) \<and>
   get_total_E (warm1\<lparr>lattice := Some [[- 1]], total_E := Some 6\<rparr>) = Inr (- 2)"
  by (simp add: init_def build_lattice_def build_r_def build_u_def build_k_def np_ones_def
      set_total_E_def get_total_E_def upto.simps unit_E_def neighbours_def lattice_pbc_def
      pbc_def attr_def item_def set_item_def py_index_def warm1_def glauber_def random_site_def np_randint_def
      get_dE_def metropolis_def np_random_def negate_item_def add_total_E_def frac_quarter one_le_exp_times_4 Let_def)

text \<open>
  C2. The code draws every resample index with \<^verbatim>\<open>randint(0, len - 1)\<close>, whose range
  \<open>[0, len - 2]\<close> leaves the last index out: on the two samples \<open>[1, 2]\<close> every draw is
  index 0 and every resample is \<open>[1, 1]\<close>, whatever the generator. The claim (index
  \<open>N - 1\<close> can be drawn) is what the specification asks for; the code misses it by one.
\<close>

theorem last_sample_never_drawn:
  "draw_index [1::real, 2] g = Inr (0, stl g) \<and>
   resample [1, 2] 2 g = Inr ([1, 1], stl (stl g))"
proof -
  have d: "draw_index [1::real, 2] h = Inr (0, stl h)" for h
    using np_randint_range[of 0 1 h] by (auto simp: draw_index_def)
  show ?thesis
    by (simp add: d numeral_2_eq_2 py_get_def py_index_def)
qed

text \<open>
  C3. The sampling statement stands inside the loop over the update steps, so a sweep
  that meets the condition records a sample after each of its \<open>rows * cols\<close> steps, not
  once: one sweep of a 2 by 2 lattice, with \<^verbatim>\<open>eqm_sweeps = 1\<close> and \<^verbatim>\<open>n = 1\<close>, leaves four
  energies in the sample set, in the Glauber branch and in the Kawasaki branch alike.
\<close>

theorem samples_per_sweep:
  "(\<exists>s'. sweep_loop (glauber_body one_sweep) (p_lattice_size one_sweep) [0..p_sweeps one_sweep - 1]
            \<lparr>model = up2, gen = g, energy_per_temp = [], mag_per_temp = []\<rparr> = Inr s' \<and>
         length (energy_per_temp s') = 4) \<and>
   (\<exists>s'. sweep_loop (kawasaki_body one_sweep) (p_lattice_size one_sweep) [0..p_sweeps one_sweep - 1]
            \<lparr>model = up2, gen = g, energy_per_temp = [], mag_per_temp = []\<rparr> = Inr s' \<and>
         length (energy_per_temp s') = 4)"
proof -
  have n: "p_n one_sweep \<noteq> 0" by (simp add: one_sweep_def)
  have p: "proper (model \<lparr>model = up2, gen = g, energy_per_temp = [], mag_per_temp = []\<rparr>)"
    by (simp add: proper_up2)
  have js: "[0..p_sweeps one_sweep - 1] = [0]" by (simp add: one_sweep_def upto.simps)
  show ?thesis
    using glauber_sweeps_samples[OF n p, of "p_lattice_size one_sweep" "[0]"]
      kawasaki_sweeps_samples[OF n p, of "p_lattice_size one_sweep" "[0]"]
    unfolding js by (simp add: one_sweep_def)
qed

text \<open>
  C4. At a positive temperature, \<^verbatim>\<open>metropolis(dE)\<close> returns \<^verbatim>\<open>True\<close> whenever
  \<open>dE < 0\<close>, drawing nothing; for \<open>dE \<ge> 0\<close> it makes one draw \<open>r\<close> of \<open>[0, 1)\<close> and
  returns \<^verbatim>\<open>True\<close> if \<open>r \<le> min(1, exp(-dE / temp))\<close> and \<^verbatim>\<open>False\<close> otherwise. It never
  returns \<^verbatim>\<open>None\<close>.
\<close>

theorem metropolis_rule:
  assumes "0 < temp st"
  shows "(dE < 0 \<longrightarrow> metropolis st dE g = (Some True, g)) \<and>
         (0 \<le> dE \<longrightarrow> (\<exists>r. np_random g = (r, stl g) \<and> 0 \<le> r \<and> r < 1 \<and>
            metropolis st dE g = (Some (r \<le> min 1 (exp (- dE / temp st))), stl g)))"
  by (auto simp: metropolis_def np_random_def frac_lt_1 Let_def)

theorem metropolis_rule_witness:
  "0 < temp up2 \<and> metropolis up2 (- 8) (sconst 0) = (Some True, sconst 0) \<and>
   (\<exists>r. np_random (sconst 0) = (r, stl (sconst 0)) \<and> 0 \<le> r \<and> r < 1 \<and>
        metropolis up2 8 (sconst 0) = (Some (r \<le> min 1 (exp (- 8 / temp up2))), stl (sconst 0)))"
proof -
  have t: "0 < temp up2" by (simp add: up2_def)
  show ?thesis
    using metropolis_rule[OF t, of "- 8" "sconst 0"] metropolis_rule[OF t, of 8 "sconst 0"] t
    by simp
qed




text \<open>
  C6. When the two sites \<^verbatim>\<open>kawasaki\<close> picks hold equal spins (the two sites may be one
  and the same), the call changes nothing: it returns the object as it was, lattice and
  \<^verbatim>\<open>total_E\<close> included, and the generator is the one left by the four index draws, so
  \<^verbatim>\<open>metropolis\<close> drew nothing.
\<close>

theorem kawasaki_equal_spins_noop:
  assumes "random_site st g = Inr (p1, g1)" and "random_site st g1 = Inr (p2, g2)"
    and "lattice st = Some lat" and "item lat p1 = Inr s" and "item lat p2 = Inr s"
  shows "kawasaki st g = Inr (st, g2) \<and> g2 = stl (stl (stl (stl g)))"
proof -
  have "g1 = stl (stl g)"
    using assms(1) by (auto simp: random_site_def np_randint_def err_bind_def split: if_splits)
  moreover have "g2 = stl (stl g1)"
    using assms(2) by (auto simp: random_site_def np_randint_def err_bind_def split: if_splits)
  ultimately show ?thesis
    using assms by (simp add: kawasaki_def attr_def)
qed

theorem kawasaki_equal_spins_noop_witness:
  "random_site up2 (sconst 0) = Inr ((0, 0), sconst 0) \<and>
   lattice up2 = Some [[1, 1], [1, 1]] \<and> item [[1, 1], [1, 1]] (0, 0) = Inr 1 \<and>
   kawasaki up2 (sconst 0) = Inr (up2, sconst 0) \<and>
   sconst 0 = stl (stl (stl (stl (sconst (0::real)))))"
proof -
  have site: "random_site up2 (sconst 0) = Inr ((0, 0), sconst 0)"
    by (simp add: random_site_def np_randint_def up2_def)
  have lat: "lattice up2 = Some [[1, 1], [1, 1]]" by (simp add: up2_def)
  have it: "item [[1, 1], [1, 1]] (0, 0) = Inr 1" by (simp add: item_def py_index_def)
  show ?thesis
    using kawasaki_equal_spins_noop[OF site site lat it it] site lat it by simp
qed

text \<open>
  C7. On a proper object whose spins are \<open>-1\<close> or \<open>1\<close>, every run of \<open>n\<close> calls of
  \<^verbatim>\<open>kawasaki()\<close> (one call is \<open>n = 1\<close>) returns, whatever the random draws and whether
  the moves are accepted, rejected or vacuous, and the sum of all spins after it is
  the sum before it; the resulting object is again proper with spins \<open>-1\<close> or \<open>1\<close>.
\<close>

theorem kawasaki_preserves_total_spin:
  assumes "proper st" and "spins_pm st"
  shows "\<exists>st' g'. steps (replicate n Kawasaki) (st, g) = Inr (st', g') \<and>
           proper st' \<and> spins_pm st' \<and> total_spin st' = total_spin st"
  using assms
proof (induction n arbitrary: st g)
  case 0
  then show ?case by simp
next
  case (Suc n)
  obtain st1 g1 where 1: "kawasaki st g = Inr (st1, g1)" "proper st1" "spins_pm st1"
      "total_spin st1 = total_spin st"
    using kawasaki_spin_invariant[OF Suc.prems, of g] by blast
  show ?case
    using Suc.IH[OF 1(2,3), of g1] 1(1,4) by (simp add: step_def)
qed

theorem kawasaki_preserves_total_spin_witness:
  "proper mixed2 \<and> spins_pm mixed2 \<and>
   (\<exists>st' g'. steps (replicate 1 Kawasaki) (mixed2, pick_00_01) = Inr (st', g') \<and>
           proper st' \<and> spins_pm st' \<and> total_spin st' = total_spin mixed2) \<and>
   kawasaki mixed2 pick_00_01 =
     Inr (mixed2\<lparr>lattice := Some [[- 1, 1], [1, 1]], total_E := Some 0\<rparr>, sconst 0) \<and>
   total_spin mixed2 = Some 2 \<and>
   total_spin (mixed2\<lparr>lattice := Some [[- 1, 1], [1, 1]], total_E := Some 0\<rparr>) = Some 2"
proof -
  have p: "proper mixed2" by (simp add: proper_def mixed2_def has_shape_def)
  have pm: "spins_pm mixed2" by (simp add: spins_pm_def mixed2_def)
  have s: "total_spin mixed2 = Some 2"
    "total_spin (mixed2\<lparr>lattice := Some [[- 1, 1], [1, 1]], total_E := Some 0\<rparr>) = Some 2"
    by (simp_all add: total_spin_def np_sum_def mixed2_def)
  show ?thesis
    using kawasaki_preserves_total_spin[OF p pm, of 1 pick_00_01] p pm s kawasaki_mixed2
    by simp
qed

text \<open>
  C8. The driver has no check of the dynamics name: with a name that is neither
  \<^verbatim>\<open>"glauber"\<close> nor \<^verbatim>\<open>"kawasaki"\<close> it returns normally, having written nothing.
\<close>

theorem unknown_dynamics_counterexample:
  "main other_params (sconst 0) = Inr (\<lparr>glauber_output = [], kawasaki_output = []\<rparr>, sconst 0)"
  by (simp add: main_def np_arange_def temp_loop_other other_params_def)

text \<open>
  C8, amended. If the dynamics name is neither \<^verbatim>\<open>"glauber"\<close> nor \<^verbatim>\<open>"kawasaki"\<close>,
  the temperature step is not 0 and the lattice side is not negative, the driver raises
  nothing: it builds a lattice for every temperature, makes no update step (the
  generator is returned as it was given), writes no record to either output and
  returns.
\<close>

theorem unknown_dynamics_silent:
  assumes "p_dynamics ps \<noteq> ''glauber''" and "p_dynamics ps \<noteq> ''kawasaki''"
    and "p_temp_step ps \<noteq> 0"
    and "0 \<le> fst (p_lattice_size ps)" and "0 \<le> snd (p_lattice_size ps)"
  shows "main ps g = Inr (\<lparr>glauber_output = [], kawasaki_output = []\<rparr>, g)"
  using assms by (simp add: main_def np_arange_def temp_loop_other)

theorem unknown_dynamics_silent_witness:
  "p_dynamics other_params \<noteq> ''glauber'' \<and> p_dynamics other_params \<noteq> ''kawasaki'' \<and>
   p_temp_step other_params \<noteq> 0 \<and>
   0 \<le> fst (p_lattice_size other_params) \<and> 0 \<le> snd (p_lattice_size other_params) \<and>
   main other_params (sconst 1) = Inr (\<lparr>glauber_output = [], kawasaki_output = []\<rparr>, sconst 1)"
proof -
  have h: "p_dynamics other_params \<noteq> ''glauber''" "p_dynamics other_params \<noteq> ''kawasaki''"
    "p_temp_step other_params \<noteq> 0"
    "0 \<le> fst (p_lattice_size other_params)" "0 \<le> snd (p_lattice_size other_params)"
    by (simp_all add: other_params_def)
  show ?thesis using unknown_dynamics_silent[OF h, of "sconst 1"] h by simp
qed

text \<open>
  C9. A 2 by 2 lattice built with the uniform-up configuration has \<^verbatim>\<open>total_E\<close> equal to
  \<open>-8\<close> right after construction, whatever the temperature, the dynamics name and the
  state of the generator: the constructor returns the grid of four up spins with that
  energy and draws no random number.
\<close>

theorem uniform_up_2x2_energy:
  "init (2, 2) t ''u'' d g =
   Inr (\<lparr>size_rc = (2, 2), temp = t, ini = ''u'', dynamics = d,
          lattice = Some [[1, 1], [1, 1]], total_E = Some (- 8)\<rparr>, g)"
  by (simp add: init_def build_lattice_def build_r_def build_u_def build_k_def np_ones_def
      set_total_E_def get_total_E_def upto.simps unit_E_def neighbours_def lattice_pbc_def
      pbc_def attr_def item_def py_index_def numeral_2_eq_2)

text \<open>
  C10. On a sample list of exactly one element, with at least one resample requested,
  \<^verbatim>\<open>bootstrap\<close> and \<^verbatim>\<open>bootstrap_chi\<close> raise \<^verbatim>\<open>ValueError\<close> instead of returning an
  estimate: the index is drawn by \<^verbatim>\<open>randint(0, 0)\<close>, whose range is empty.
\<close>

theorem bootstrap_single_sample_raises:
  "0 < samples \<Longrightarrow>
     draw_index [x] g = Inl ValueError \<and>
     bootstrap st [x] samples g = Inl ValueError \<and>
     bootstrap_chi st [x] samples g = Inl ValueError"
  by (cases "nat samples")
     (simp_all add: bootstrap_def bootstrap_chi_def draw_index_def np_randint_def)

theorem bootstrap_single_sample_raises_witness:
  "(0::int) < 1 \<and>
     draw_index [5::real] (sconst 0) = Inl ValueError \<and>
     bootstrap up2 [5] 1 (sconst 0) = Inl ValueError \<and>
     bootstrap_chi up2 [5] 1 (sconst 0) = Inl ValueError"
  using bootstrap_single_sample_raises[of 1 5 "sconst 0" up2] by simp

end
